theory Spec2Isabelle
  imports Complex_Main "HOL-Library.Multiset"
begin

section \<open>Exceptions and Python primitives\<close>

text \<open>
  The script raises, or lets pass, Python exceptions. \<open>RsyncError\<close> is the only one it
  catches (line 72); \<open>IndexError\<close>, \<open>KeyError\<close> and \<open>ZeroDivisionError\<close> are raised by
  the subscripts and the division of the script itself, \<open>OverflowError\<close> by a division
  of integers whose quotient is too large for a float; \<open>MalformedInput\<close> is the fatal
  error that section 7 of the specification names for the constructor of the aligner;
  \<open>OtherError\<close> stands for any further exception of the external loaders and of the
  aligner, named by its class.
\<close>

datatype exn = RsyncError | IndexError | KeyError | ZeroDivisionError | OverflowError
  | MalformedInput | OtherError string

text \<open>\<open>xs[i]\<close> for an index \<open>i \<ge> 0\<close>: out of range raises \<open>IndexError\<close>.\<close>

definition subscript :: "'a list \<Rightarrow> nat \<Rightarrow> exn + 'a" where
  "subscript xs i = (if i < length xs then Inr (xs ! i) else Inl IndexError)"

text \<open>
  \<open>s.split(sep, 1)\<close> for a separator of one character: at most one split, at the first
  occurrence; a string without the separator comes back whole, as a list of one element.
\<close>

definition split1 :: "char \<Rightarrow> string \<Rightarrow> string list" where
  "split1 sep s =
     (if sep \<in> set s
      then [takeWhile (\<lambda>c. c \<noteq> sep) s, tl (dropWhile (\<lambda>c. c \<noteq> sep) s)]
      else [s])"

section \<open>Floats and the division of integers\<close>

text \<open>
  A Python float is an IEEE 754 binary64 number. A finite one is a sign, a mantissa
  \<open>m < 2^53\<close> and an exponent \<open>e\<close> from \<open>-1074\<close> to \<open>971\<close>, and stands for
  \<open>\<plusminus> m * 2^e\<close>; both zeros have the mantissa 0 and the exponent \<open>-1074\<close>. The
  division of the script returns no infinity and no NaN.
\<close>

datatype double = Double (negative: bool) (mantissa: nat) (exponent: int)

definition double_value :: "double \<Rightarrow> rat" where
  "double_value x =
     (if negative x then - 1 else 1) * of_nat (mantissa x) * 2 powi exponent x"

text \<open>\<open>n.bit_length()\<close>: the number of binary digits of \<open>n\<close>.\<close>

fun bit_length :: "nat \<Rightarrow> nat" where
  "bit_length n = (if n = 0 then 0 else Suc (bit_length (n div 2)))"

declare bit_length.simps [simp del]

text \<open>The fraction \<open>n / (d * 2^e)\<close>, as a numerator and a denominator.\<close>

definition scaled :: "nat \<Rightarrow> nat \<Rightarrow> int \<Rightarrow> nat \<times> nat" where
  "scaled n d e = (if 0 \<le> e then (n, d * 2 ^ nat e) else (n * 2 ^ nat (- e), d))"

text \<open>The integer nearest to a fraction; of two equally near, the even one.\<close>

definition round_half_even :: "nat \<times> nat \<Rightarrow> nat" where
  "round_half_even nd =
     (case nd of (n, d) \<Rightarrow>
        let q = n div d; r = n mod d in
        if 2 * r < d then q
        else if d < 2 * r then q + 1
        else if even q then q else q + 1)"

text \<open>
  The exponent of the float nearest to \<open>n / d\<close>, for positive \<open>n\<close> and \<open>d\<close>: the
  \<open>e\<close> that puts \<open>n / (d * 2^e)\<close> between \<open>2^52\<close> and \<open>2^53\<close>, found from the bit
  lengths within one; it is not taken below \<open>-1074\<close>, where the floats are equally
  spaced.
\<close>

definition quotient_exponent :: "nat \<Rightarrow> nat \<Rightarrow> int" where
  "quotient_exponent n d =
     (let e0 = int (bit_length n) - int (bit_length d) - 53;
          e1 = (if 2 ^ 53 * snd (scaled n d e0) \<le> fst (scaled n d e0) then e0 + 1 else e0)
      in max e1 (- 1074))"

text \<open>
  \<open>a / b\<close> for two Python integers (true division): \<open>ZeroDivisionError\<close> when \<open>b\<close> is
  0; otherwise the float nearest to the exact quotient, the one with the even mantissa of
  two equally near, with the sign of the quotient (a zero takes the sign of \<open>b\<close>). A
  quotient of at most half the least positive float rounds to zero; one that rounds
  beyond the largest float raises \<open>OverflowError\<close>. A mantissa that rounds up to
  \<open>2^53\<close> is \<open>2^52\<close> at the next exponent.
\<close>

definition true_divide :: "int \<Rightarrow> int \<Rightarrow> exn + double" where
  "true_divide a b =
     (if b = 0 then Inl ZeroDivisionError
      else if a = 0 then Inr (Double (b < 0) 0 (- 1074))
      else
        let s = ((a < 0) \<noteq> (b < 0));
            n = nat \<bar>a\<bar>;
            d = nat \<bar>b\<bar>;
            e = quotient_exponent n d;
            m = round_half_even (scaled n d e);
            x = (if m = 2 ^ 53 then Double s (2 ^ 52) (e + 1) else Double s m e)
        in if 971 < exponent x then Inl OverflowError else Inr x)"

section \<open>Finding corresponding file names (lines 40 to 52)\<close>

text \<open>
  \<open>_get_file_info\<close>: the subject ID is \<open>filename[:4]\<close>, the date is
  \<open>filename.split('-',1)[1][:10]\<close>. Slices never raise; the subscript \<open>[1]\<close> does
  when the name has no \<open>'-'\<close>. A \<open>char\<close> stands for one character of the Python string.
\<close>

definition get_file_info :: "string \<Rightarrow> exn + (string \<times> string)" where
  "get_file_info filename =
     (let subject_ID = take 4 filename in
      case subscript (split1 CHR ''-'' filename) 1 of
        Inl e \<Rightarrow> Inl e
      | Inr rest \<Rightarrow> Inr (subject_ID, take 10 rest))"

text \<open>
  \<open>next((f_name for f_name in photometry_filenames
         if b_file_info == _get_file_info(f_name)), None)\<close>:
  the generator is consumed lazily, one name at a time, up to the first name whose key is
  equal; an exception of \<open>_get_file_info\<close> on a name reached leaves \<open>next\<close>.
\<close>

fun next_match :: "string \<times> string \<Rightarrow> string list \<Rightarrow> exn + string option" where
  "next_match b_file_info [] = Inr None"
| "next_match b_file_info (f_name # f_names) =
     (case get_file_info f_name of
        Inl e \<Rightarrow> Inl e
      | Inr p_file_info \<Rightarrow>
          if b_file_info = p_file_info then Inr (Some f_name)
          else next_match b_file_info f_names)"

text \<open>
  The loop of lines 48 to 52; the last argument is the list \<open>coresponding_files\<close> built
  so far, to which each iteration appends one pair.
\<close>

fun coresponding_loop ::
  "string list \<Rightarrow> string list \<Rightarrow> (string \<times> string option) list
    \<Rightarrow> exn + (string \<times> string option) list" where
  "coresponding_loop [] photometry_filenames acc = Inr acc"
| "coresponding_loop (b_file_name # b_file_names) photometry_filenames acc =
     (case get_file_info b_file_name of
        Inl e \<Rightarrow> Inl e
      | Inr b_file_info \<Rightarrow>
          (case next_match b_file_info photometry_filenames of
             Inl e \<Rightarrow> Inl e
           | Inr p_file_name \<Rightarrow>
               coresponding_loop b_file_names photometry_filenames
                 (acc @ [(b_file_name, p_file_name)])))"

definition coresponding_files ::
  "string list \<Rightarrow> string list \<Rightarrow> exn + (string \<times> string option) list" where
  "coresponding_files behaviour_filenames photometry_filenames =
     coresponding_loop behaviour_filenames photometry_filenames []"

section \<open>Loading the data and setting up the synchronisation (lines 56 to 78)\<close>

text \<open>
  The data the script reads from its collaborators. \<open>import_ppd\<close> returns a dictionary
  with fixed keys, of which the script reads \<open>'pulse_inds_2'\<close> and \<open>'sampling_rate'\<close> and
  to which it adds \<open>'aligner'\<close>: a record, the added key optional. A session carries the
  dictionary \<open>times\<close> from event names to times in milliseconds, whose key \<open>'rsync'\<close> may
  be missing, and the attribute \<open>photo_data\<close> once the script has set it. The aligner
  object is opaque to the script: the type variable \<open>'al\<close>.
\<close>

record 'al photo_data =
  pulse_inds_2 :: "int list"
  sampling_rate :: int
  aligner :: "'al option"

record 'al session =
  times_dict :: "string \<rightharpoonup> int list"
  photo_data :: "'al photo_data option"

text \<open>
  The three imported names (lines 24 to 26) are not part of the script: they are the
  environment it runs in. Each is a function of its arguments that returns or raises.
  \<open>Session\<close> and \<open>import_ppd\<close> take the file name; the folder the script joins in front
  of it is a constant. The third argument of \<open>Rsync_aligner\<close> is \<open>units_B\<close>, a float.
  The sampling rate in the header of a photometry file is an integer.
\<close>

record 'al env =
  Session :: "string \<Rightarrow> exn + 'al session"
  import_ppd :: "string \<Rightarrow> exn + 'al photo_data"
  Rsync_aligner :: "int list \<Rightarrow> int list \<Rightarrow> double \<Rightarrow> exn + 'al"

text \<open>
  The body of the \<open>try\<close> (lines 70 and 71): the division \<open>1000/photo_data['sampling_rate']\<close>
  is evaluated before the call, in floating point, and raises \<open>ZeroDivisionError\<close> on a
  sampling rate of 0.
\<close>

definition instantiate_aligner ::
  "'al env \<Rightarrow> int list \<Rightarrow> int list \<Rightarrow> int \<Rightarrow> exn + 'al" where
  "instantiate_aligner env sync_pulse_times sync_pulse_samples rate =
     (case true_divide 1000 rate of
        Inl e \<Rightarrow> Inl e
      | Inr units_B \<Rightarrow> Rsync_aligner env sync_pulse_times sync_pulse_samples units_B)"

text \<open>
  One iteration of the loop of line 59, on the lists \<open>sessions\<close> and \<open>sync_errors\<close>.
  \<open>if p_file_name:\<close> is false for \<open>None\<close> and for the empty string. Only \<open>RsyncError\<close>
  is caught; any other exception leaves the loop.
\<close>

definition process_pair ::
  "'al env \<Rightarrow> string \<times> string option
    \<Rightarrow> 'al session list \<times> (string \<times> string) list
    \<Rightarrow> exn + ('al session list \<times> (string \<times> string) list)" where
  "process_pair env pair st =
     (case (pair, st) of ((b_file_name, p_opt), (sessions, sync_errors)) \<Rightarrow>
        (case Session env b_file_name of
           Inl e \<Rightarrow> Inl e
         | Inr session \<Rightarrow>
             (case p_opt of
                None \<Rightarrow> Inr (sessions, sync_errors)
              | Some p_file_name \<Rightarrow>
                  if p_file_name = [] then Inr (sessions, sync_errors)
                  else
                    (case import_ppd env p_file_name of
                       Inl e \<Rightarrow> Inl e
                     | Inr photo \<Rightarrow>
                         (case times_dict session ''rsync'' of
                            None \<Rightarrow> Inl KeyError
                          | Some sync_pulse_times \<Rightarrow>
                              (case instantiate_aligner env sync_pulse_times
                                      (pulse_inds_2 photo) (sampling_rate photo) of
                                 Inl e \<Rightarrow>
                                   if e = RsyncError
                                   then Inr (sessions, sync_errors @ [(b_file_name, p_file_name)])
                                   else Inl e
                               | Inr al \<Rightarrow>
                                   Inr (sessions @
                                          [session\<lparr>photo_data :=
                                             Some (photo\<lparr>aligner := Some al\<rparr>)\<rparr>],
                                        sync_errors)))))))"

fun process_pairs ::
  "'al env \<Rightarrow> (string \<times> string option) list
    \<Rightarrow> 'al session list \<times> (string \<times> string) list
    \<Rightarrow> exn + ('al session list \<times> (string \<times> string) list)" where
  "process_pairs env [] st = Inr st"
| "process_pairs env (pair # rest) st =
     (case process_pair env pair st of
        Inl e \<Rightarrow> Inl e
      | Inr st' \<Rightarrow> process_pairs env rest st')"

section \<open>The summary (lines 80 to 93)\<close>

definition missing_sessions :: "(string \<times> string option) list \<Rightarrow> string list" where
  "missing_sessions cf = [b_file_name. (b_file_name, p_file_name) \<leftarrow> cf, p_file_name = None]"

text \<open>\<open>'{}'.format(n)\<close> for the length of a list: the decimal digits of \<open>n\<close>.\<close>

fun str_of_nat :: "nat \<Rightarrow> string" where
  "str_of_nat n =
     (if n < 10 then [''0123456789'' ! n]
      else str_of_nat (n div 10) @ [''0123456789'' ! (n mod 10)])"

declare str_of_nat.simps [simp del]

text \<open>What the script prints: one string for each call of \<open>print\<close>, in order.\<close>

definition summary ::
  "'al session list \<Rightarrow> string list \<Rightarrow> (string \<times> string) list \<Rightarrow> string list" where
  "summary sessions missing sync_errors =
     [CHR 0x0A # ''Matching behaviour and photometry data found for ''
        @ str_of_nat (length sessions) @ '' sessions.'']
     @ (if missing \<noteq> []
        then (CHR 0x0A # '' No matching photometry data file found for behaviour sessions:'')
               # map (\<lambda>b_file_name. ''    '' @ b_file_name) missing
        else [])
     @ (if sync_errors \<noteq> []
        then (CHR 0x0A # ''Sync pulses could not be aligned for sessions:'')
               # map (\<lambda>(b_file_name, p_file_name).
                        ''    '' @ b_file_name @ '' : '' @ p_file_name) sync_errors
        else [])"

section \<open>The script as a whole\<close>

text \<open>
  The module-level variables when the script has run, and what it has printed. The
  script prints only after the loops, so a run that an exception ends prints nothing.
\<close>

record 'al globals =
  g_coresponding_files :: "(string \<times> string option) list"
  g_sessions :: "'al session list"
  g_sync_errors :: "(string \<times> string) list"
  g_missing_sessions :: "string list"
  stdout :: "string list"

definition import_script ::
  "'al env \<Rightarrow> string list \<Rightarrow> string list \<Rightarrow> exn + 'al globals" where
  "import_script env behaviour_filenames photometry_filenames =
     (case coresponding_files behaviour_filenames photometry_filenames of
        Inl e \<Rightarrow> Inl e
      | Inr cf \<Rightarrow>
          (case process_pairs env cf ([], []) of
             Inl e \<Rightarrow> Inl e
           | Inr (sessions, sync_errors) \<Rightarrow>
               Inr \<lparr>g_coresponding_files = cf,
                    g_sessions = sessions,
                    g_sync_errors = sync_errors,
                    g_missing_sessions = missing_sessions cf,
                    stdout = summary sessions (missing_sessions cf) sync_errors\<rparr>))"

section \<open>The constructor of the aligner, as the specification describes it\<close>

text \<open>
  Modelled from the spec: the module \<open>rsync\<close> with the class \<open>Rsync_aligner\<close> is not
  among the sources. Section 7 of the specification calls an input of the constructor
  malformed when the unit scale is not positive, or a pulse sequence is empty or not
  increasing (section 3: a pulse sequence is strictly increasing).
\<close>

definition malformed_input :: "int list \<Rightarrow> int list \<Rightarrow> double \<Rightarrow> bool" where
  "malformed_input pulse_times_A pulse_times_B units_B \<longleftrightarrow>
     double_value units_B \<le> 0
     \<or> pulse_times_A = [] \<or> pulse_times_B = []
     \<or> \<not> sorted_wrt (<) pulse_times_A \<or> \<not> sorted_wrt (<) pulse_times_B"

text \<open>
  Modelled from the spec: the constructor \<open>Aligner(pulse_times_A, pulse_times_B,
  unit_scale_B)\<close> of sections 4.5 and 7. A malformed input is a fatal error, apart from
  the alignment failure; on any other input the construction either succeeds or signals
  the alignment failure, which the script knows as \<open>RsyncError\<close>. The matching and the
  fit, whose constants the specification leaves open (section 9), are the parameter
  \<open>fit\<close>: \<open>None\<close> when the pulse trains cannot be reconciled.
\<close>

definition Aligner ::
  "(int list \<Rightarrow> int list \<Rightarrow> double \<Rightarrow> 'al option)
    \<Rightarrow> int list \<Rightarrow> int list \<Rightarrow> double \<Rightarrow> exn + 'al" where
  "Aligner fit pulse_times_A pulse_times_B units_B =
     (if malformed_input pulse_times_A pulse_times_B units_B then Inl MalformedInput
      else case fit pulse_times_A pulse_times_B units_B of
             None \<Rightarrow> Inl RsyncError
           | Some al \<Rightarrow> Inr al)"

section \<open>An environment to run the script in\<close>

text \<open>
  Test data: every behaviour file loads, with three sync pulses; the photometry files
  load with three pulses at 130 Hz, except \<open>m003\<close> (two pulses), \<open>m004\<close> (no pulse),
  \<open>m005\<close> (a sampling rate of 0), \<open>m006\<close> (a negative sampling rate) and \<open>m007\<close>
  (pulses out of order). The aligner
  is the constructor above; its fit keeps the three arguments, so that a session shows
  what it was constructed with, and fails when the two pulse trains differ in length.
\<close>

definition demo_env :: "(int list \<times> int list \<times> double) env" where
  "demo_env =
     \<lparr>Session = (\<lambda>b. Inr \<lparr>times_dict = [''rsync'' \<mapsto> [0, 1000, 2000]], photo_data = None\<rparr>),
      import_ppd = (\<lambda>p.
        if p = ''m003-2019-01-01.ppd''
        then Inr \<lparr>pulse_inds_2 = [0, 130], sampling_rate = 130, aligner = None\<rparr>
        else if p = ''m004-2019-01-01.ppd''
        then Inr \<lparr>pulse_inds_2 = [], sampling_rate = 130, aligner = None\<rparr>
        else if p = ''m005-2019-01-01.ppd''
        then Inr \<lparr>pulse_inds_2 = [0, 130, 260], sampling_rate = 0, aligner = None\<rparr>
        else if p = ''m006-2019-01-01.ppd''
        then Inr \<lparr>pulse_inds_2 = [0, 130, 260], sampling_rate = - 8, aligner = None\<rparr>
        else if p = ''m007-2019-01-01.ppd''
        then Inr \<lparr>pulse_inds_2 = [0, 260, 130], sampling_rate = 130, aligner = None\<rparr>
        else Inr \<lparr>pulse_inds_2 = [0, 130, 260], sampling_rate = 130, aligner = None\<rparr>),
      Rsync_aligner =
        Aligner (\<lambda>A B u. if length A = length B then Some (A, B, u) else None)\<rparr>"

section \<open>The division\<close>

lemma bit_length_0 [simp]: "bit_length 0 = 0"
  by (simp add: bit_length.simps)

lemma bit_length_pos: "0 < n \<Longrightarrow> bit_length n = Suc (bit_length (n div 2))"
  by (subst bit_length.simps) simp

lemma bit_length_numeral [simp]:
  "bit_length (Suc 0) = 1"
  "bit_length (numeral (Num.Bit0 k)) = Suc (bit_length (numeral k))"
  "bit_length (numeral (Num.Bit1 k)) = Suc (bit_length (numeral k))"
  by (simp_all add: bit_length_pos)

lemmas divide_defs =
  true_divide_def quotient_exponent_def scaled_def round_half_even_def Let_def

lemma true_divide_1000_130:
  "true_divide 1000 130 = Inr (Double False 8660768514174031 (- 50))"
  by (simp add: divide_defs)

lemma quotient_exponent_le:
  "quotient_exponent n d \<le> max (int (bit_length n) - int (bit_length d) - 52) (- 1074)"
  by (auto simp: quotient_exponent_def Let_def)

lemma true_divide_1000:
  assumes "rate \<noteq> 0"
  shows "\<exists>units_B. true_divide 1000 rate = Inr units_B \<and> negative units_B = (rate < 0)"
proof -
  define e where "e = quotient_exponent 1000 (nat \<bar>rate\<bar>)"
  define m where "m = round_half_even (scaled 1000 (nat \<bar>rate\<bar>) e)"
  define x where "x = (if m = 2 ^ 53 then Double (rate < 0) (2 ^ 52) (e + 1)
                       else Double (rate < 0) m e)"
  have "bit_length 1000 = 10" by simp
  then have "e \<le> - 42"
    using quotient_exponent_le [of 1000 "nat \<bar>rate\<bar>"] by (auto simp: e_def)
  then have "\<not> 971 < exponent x" and "negative x = (rate < 0)"
    by (simp_all add: x_def)
  moreover have "true_divide 1000 rate = (if 971 < exponent x then Inl OverflowError else Inr x)"
    using assms by (simp add: true_divide_def Let_def x_def m_def e_def)
  ultimately show ?thesis by simp
qed

lemma true_divide_by_0: "true_divide a 0 = Inl ZeroDivisionError"
  by (simp add: true_divide_def)

lemma double_value_negative: "negative x \<Longrightarrow> double_value x \<le> 0"
  by (simp add: double_value_def)

lemma bit_length_bounds:
  "0 < n \<Longrightarrow> 2 ^ (bit_length n - 1) \<le> n \<and> n < 2 ^ bit_length n"
proof (induction n rule: bit_length.induct)
  case (1 n)
  show ?case
  proof (cases "n div 2 = 0")
    case True
    with 1 have "n = 1" by (cases n) auto
    then show ?thesis by simp
  next
    case False
    then have pos: "0 < n div 2" by simp
    from 1 have "n \<noteq> 0" by simp
    from "1.IH" [OF this pos]
    have lo: "2 ^ (bit_length (n div 2) - 1) \<le> n div 2" and hi: "n div 2 < 2 ^ bit_length (n div 2)"
      by auto
    have bl: "bit_length n = Suc (bit_length (n div 2))"
      using 1 by (simp add: bit_length_pos)
    have "0 < bit_length (n div 2)" using pos by (simp add: bit_length_pos)
    then obtain j where j: "bit_length (n div 2) = Suc j" by (cases "bit_length (n div 2)") auto
    from lo hi show ?thesis
      by (simp add: bl j) linarith
  qed
qed

lemma scaled_ratio:
  assumes "0 < d"
  shows "0 < snd (scaled n d e)"
    and "(of_nat (fst (scaled n d e)) :: rat) / of_nat (snd (scaled n d e))
           = of_nat n / of_nat d * 2 powi (- e)"
  using assms
  by (auto simp: scaled_def power_int_def nat_minus_as_int field_simps)

lemma round_half_even_near:
  assumes "0 < d"
  shows "\<bar>(of_nat (round_half_even (n, d)) :: rat) - of_nat n / of_nat d\<bar> \<le> 1 / 2"
proof -
  define q where "q = n div d"
  define r where "r = n mod d"
  have n: "n = q * d + r" and r: "r < d"
    using assms by (simp_all add: q_def r_def)
  have frac: "(of_nat n :: rat) / of_nat d = of_nat q + of_nat r / of_nat d"
    using assms by (simp add: n field_simps)
  have d: "(0 :: rat) < of_nat d" using assms by simp
  consider "2 * r < d" | "d < 2 * r" | "2 * r = d" by linarith
  then show ?thesis
  proof cases
    case 1
    then have "round_half_even (n, d) = q"
      by (simp add: round_half_even_def Let_def q_def r_def)
    moreover from 1 have "(of_nat r :: rat) / of_nat d \<le> 1 / 2"
      using d by (simp add: field_simps)
    ultimately show ?thesis by (simp add: frac)
  next
    case 2
    then have "round_half_even (n, d) = q + 1"
      by (simp add: round_half_even_def Let_def q_def r_def)
    moreover from 2 have "1 / 2 \<le> (of_nat r :: rat) / of_nat d"
      using d by (simp add: field_simps)
    moreover from r have "(of_nat r :: rat) / of_nat d \<le> 1"
      using d by (simp add: field_simps)
    ultimately show ?thesis by (simp add: frac)
  next
    case 3
    then have "round_half_even (n, d) = q \<or> round_half_even (n, d) = q + 1"
      by (simp add: round_half_even_def Let_def q_def r_def)
    then consider (down) "round_half_even (n, d) = q" | (up) "round_half_even (n, d) = q + 1"
      by blast
    note rounded = this
    from 3 have half: "(of_nat r :: rat) / of_nat d = 1 / 2"
      using d by (simp add: field_simps)
    from rounded show ?thesis
    proof cases
      case down
      have "(of_nat (round_half_even (n, d)) :: rat) - of_nat n / of_nat d = - (1 / 2)"
        unfolding down frac half by simp
      then show ?thesis by simp
    next
      case up
      have "(of_nat (round_half_even (n, d)) :: rat) - of_nat n / of_nat d = 1 / 2"
        unfolding up frac half by simp
      then show ?thesis by simp
    qed
  qed
qed

lemma two_powi_pos: "(0::rat) < 2 powi k"
  by (simp add: zero_less_power_int)

lemma two_powi_add: "(2::rat) powi (j + k) = 2 powi j * 2 powi k"
  by (simp add: power_int_add)

lemma two_powi_mono: "j \<le> k \<Longrightarrow> (2::rat) powi j \<le> 2 powi k"
  by (simp add: power_int_increasing)

lemma two_powi_nat: "(2::rat) powi int k = 2 ^ k"
  by (simp add: power_int_def)

lemma bit_length_powi:
  assumes "0 < n"
  shows "(2::rat) powi (int (bit_length n) - 1) \<le> of_nat n"
    and "(of_nat n :: rat) < 2 powi int (bit_length n)"
proof -
  from bit_length_bounds [OF assms]
  have lo: "2 ^ (bit_length n - 1) \<le> n" and hi: "n < 2 ^ bit_length n" by auto
  from assms have "0 < bit_length n" by (simp add: bit_length_pos)
  then have "int (bit_length n) - 1 = int (bit_length n - 1)" by simp
  then have "(2::rat) powi (int (bit_length n) - 1) = of_nat (2 ^ (bit_length n - 1))"
    by (simp only: two_powi_nat) simp
  also have "\<dots> \<le> of_nat n" using lo by (simp only: of_nat_le_iff)
  finally show "(2::rat) powi (int (bit_length n) - 1) \<le> of_nat n" .
  have "(of_nat n :: rat) < of_nat (2 ^ bit_length n)" using hi by (simp only: of_nat_less_iff)
  then show "(of_nat n :: rat) < 2 powi int (bit_length n)"
    by (simp add: two_powi_nat)
qed

lemma quotient_powi:
  assumes "0 < n" and "0 < d"
  shows "(2::rat) powi (int (bit_length n) - int (bit_length d) - 1) < of_nat n / of_nat d"
    and "(of_nat n :: rat) / of_nat d < 2 powi (int (bit_length n) - int (bit_length d) + 1)"
proof -
  note n = bit_length_powi [OF assms(1)] and d = bit_length_powi [OF assms(2)]
  have dpos: "(0::rat) < of_nat d" using assms(2) by simp
  have "(2::rat) powi (int (bit_length n) - int (bit_length d) - 1) * of_nat d
        < 2 powi (int (bit_length n) - int (bit_length d) - 1) * 2 powi int (bit_length d)"
    using d(2) two_powi_pos by (simp add: mult_strict_left_mono)
  also have "\<dots> = 2 powi (int (bit_length n) - 1)"
    by (simp only: two_powi_add [symmetric]) simp
  also have "\<dots> \<le> of_nat n" by (rule n(1))
  finally show "(2::rat) powi (int (bit_length n) - int (bit_length d) - 1) < of_nat n / of_nat d"
    using dpos by (simp add: pos_less_divide_eq)
  have "(of_nat n :: rat) < 2 powi int (bit_length n)" by (rule n(2))
  also have "\<dots> = 2 powi (int (bit_length n) - int (bit_length d) + 1)
                    * 2 powi (int (bit_length d) - 1)"
    by (simp only: two_powi_add [symmetric]) simp
  also have "\<dots> \<le> 2 powi (int (bit_length n) - int (bit_length d) + 1) * of_nat d"
    using d(1) two_powi_pos by (simp add: mult_left_mono less_imp_le)
  finally show "(of_nat n :: rat) / of_nat d < 2 powi (int (bit_length n) - int (bit_length d) + 1)"
    using dpos by (simp add: pos_divide_less_eq)
qed

lemma quotient_exponent_range:
  assumes "0 < n" and "0 < d"
  defines "v \<equiv> (of_nat n :: rat) / of_nat d * 2 powi (- quotient_exponent n d)"
  shows "v < 2 ^ 53" and "- 1074 \<le> quotient_exponent n d"
    and "quotient_exponent n d = - 1074 \<or> 2 ^ 52 \<le> v"
proof -
  define q where "q = (of_nat n :: rat) / of_nat d"
  define e0 where "e0 = int (bit_length n) - int (bit_length d) - 53"
  define e1 where "e1 = (if 2 ^ 53 * snd (scaled n d e0) \<le> fst (scaled n d e0) then e0 + 1 else e0)"
  have e: "quotient_exponent n d = max e1 (- 1074)"
    by (simp add: quotient_exponent_def Let_def e1_def e0_def)
  have qpos: "0 < q" using assms by (simp add: q_def)
  have lo0: "2 powi 52 < q * 2 powi (- e0)"
  proof -
    have "(2::rat) powi 52 = 2 powi (int (bit_length n) - int (bit_length d) - 1) * 2 powi (- e0)"
      by (simp only: two_powi_add [symmetric] e0_def) simp
    also have "\<dots> < q * 2 powi (- e0)"
      using mult_strict_right_mono [OF quotient_powi(1) [OF assms(1,2)] two_powi_pos [of "- e0"]]
      by (simp only: q_def)
    finally show ?thesis .
  qed
  have hi0: "q * 2 powi (- e0) < 2 powi 54"
  proof -
    have "q * 2 powi (- e0) < 2 powi (int (bit_length n) - int (bit_length d) + 1) * 2 powi (- e0)"
      using mult_strict_right_mono [OF quotient_powi(2) [OF assms(1,2)] two_powi_pos [of "- e0"]]
      by (simp only: q_def)
    also have "\<dots> = 2 powi 54"
      by (simp only: two_powi_add [symmetric] e0_def) simp
    finally show ?thesis .
  qed
  have cond: "2 ^ 53 * snd (scaled n d e0) \<le> fst (scaled n d e0) \<longleftrightarrow> 2 ^ 53 \<le> q * 2 powi (- e0)"
  proof -
    have s: "(0::rat) < of_nat (snd (scaled n d e0))"
      using scaled_ratio(1) [OF assms(2), of n e0] by simp
    have "2 ^ 53 * snd (scaled n d e0) \<le> fst (scaled n d e0)
          \<longleftrightarrow> (of_nat (2 ^ 53 * snd (scaled n d e0)) :: rat) \<le> of_nat (fst (scaled n d e0))"
      by (simp only: of_nat_le_iff)
    also have "\<dots> \<longleftrightarrow> (2 ^ 53 :: rat) \<le> of_nat (fst (scaled n d e0)) / of_nat (snd (scaled n d e0))"
      using s by (simp add: pos_le_divide_eq)
    also have "\<dots> \<longleftrightarrow> 2 ^ 53 \<le> q * 2 powi (- e0)"
      by (simp only: scaled_ratio(2) [OF assms(2)] q_def)
    finally show ?thesis .
  qed
  have half: "q * 2 powi (- e0 - 1) = q * 2 powi (- e0) / 2"
  proof -
    have "- e0 - 1 = - e0 + - 1" by simp
    then have "(2::rat) powi (- e0 - 1) = 2 powi (- e0) * 2 powi (- 1)"
      by (simp only: two_powi_add)
    then show ?thesis by simp
  qed
  have p52: "(2::rat) powi 52 = 2 ^ 52" and p53: "(2::rat) powi 53 = 2 ^ 53"
    and p54: "(2::rat) powi 54 = 2 ^ 54"
    by (simp_all add: power_int_def)
  have r1: "2 ^ 52 \<le> q * 2 powi (- e1) \<and> q * 2 powi (- e1) < 2 ^ 53"
  proof (cases "2 ^ 53 * snd (scaled n d e0) \<le> fst (scaled n d e0)")
    case True
    then have "e1 = e0 + 1" by (simp add: e1_def)
    with True cond hi0 show ?thesis
      by (simp add: half p54)
  next
    case False
    then have "e1 = e0" by (simp add: e1_def)
    with False cond lo0 show ?thesis
      by (simp add: p52)
  qed
  show "- 1074 \<le> quotient_exponent n d" by (simp add: e)
  have v: "v = q * 2 powi (- max e1 (- 1074))"
    by (simp add: v_def q_def e)
  show "v < 2 ^ 53"
  proof -
    have "- max e1 (- 1074) \<le> - e1" by simp
    then have "(2::rat) powi (- max e1 (- 1074)) \<le> 2 powi (- e1)"
      by (rule two_powi_mono)
    then have "v \<le> q * 2 powi (- e1)"
      using qpos by (simp add: v mult_left_mono less_imp_le)
    with r1 show ?thesis by simp
  qed
  show "quotient_exponent n d = - 1074 \<or> 2 ^ 52 \<le> v"
  proof (cases "e1 \<le> - 1074")
    case True
    then show ?thesis by (simp add: e)
  next
    case False
    then have "max e1 (- 1074) = e1" by simp
    with r1 show ?thesis by (simp add: v)
  qed
qed

lemma signed_quotient:
  assumes "a \<noteq> 0" and "b \<noteq> 0"
  shows "(of_int a :: rat) / of_int b
         = (if (a < 0) \<noteq> (b < 0) then - 1 else 1) * (of_nat (nat \<bar>a\<bar>) / of_nat (nat \<bar>b\<bar>))"
  using assms by (auto simp: abs_if)

lemma true_divide_nearest:
  assumes "b \<noteq> 0" and "true_divide a b = Inr x"
  shows "\<bar>double_value x - of_int a / of_int b\<bar> \<le> 2 powi (exponent x - 1)
       \<and> mantissa x < 2 ^ 53 \<and> - 1074 \<le> exponent x \<and> exponent x \<le> 971
       \<and> (2 ^ 52 \<le> mantissa x \<or> exponent x = - 1074)"
proof (cases "a = 0")
  case True
  with assms have "x = Double (b < 0) 0 (- 1074)"
    by (simp add: true_divide_def)
  with True show ?thesis
    by (simp add: double_value_def two_powi_pos less_imp_le)
next
  case False
  define s where "s = ((a < 0) \<noteq> (b < 0))"
  define n where "n = nat \<bar>a\<bar>"
  define d where "d = nat \<bar>b\<bar>"
  define e where "e = quotient_exponent n d"
  define m where "m = round_half_even (scaled n d e)"
  define q where "q = (of_nat n :: rat) / of_nat d"
  define v where "v = q * 2 powi (- e)"
  have n: "0 < n" and d: "0 < d" using False assms(1) by (simp_all add: n_def d_def)
  have x: "x = (if m = 2 ^ 53 then Double s (2 ^ 52) (e + 1) else Double s m e)"
    and no_overflow: "exponent x \<le> 971"
    using assms False
    by (auto simp: true_divide_def Let_def s_def n_def d_def e_def m_def split: if_splits)
  have ab: "(of_int a :: rat) / of_int b = (if s then - 1 else 1) * q"
    using signed_quotient [OF False assms(1)] by (simp add: s_def q_def n_def d_def)
  have near: "\<bar>(of_nat m :: rat) - v\<bar> \<le> 1 / 2"
  proof -
    have "\<bar>(of_nat (round_half_even (fst (scaled n d e), snd (scaled n d e))) :: rat)
            - of_nat (fst (scaled n d e)) / of_nat (snd (scaled n d e))\<bar> \<le> 1 / 2"
      by (rule round_half_even_near) (rule scaled_ratio(1) [OF d])
    then show ?thesis
      by (simp add: m_def v_def q_def scaled_ratio(2) [OF d])
  qed
  from quotient_exponent_range [OF n d]
  have v_hi: "v < 2 ^ 53" and e_lo: "- 1074 \<le> e" and v_lo: "e = - 1074 \<or> 2 ^ 52 \<le> v"
    by (simp_all add: v_def q_def e_def)
  have m_hi: "m \<le> 2 ^ 53"
  proof -
    from near v_hi have "(of_nat m :: rat) < 9007199254740993" by (simp; linarith)
    then have "m < 9007199254740993" by simp
    then show ?thesis by simp
  qed
  have m_lo: "2 ^ 52 \<le> m" if "2 ^ 52 \<le> v"
  proof -
    from near that have "(4503599627370495 :: rat) < of_nat m" by (simp; linarith)
    then have "4503599627370495 < m" by simp
    then show ?thesis by simp
  qed
  have val: "double_value x = (if s then - 1 else 1) * (of_nat m * 2 powi e)"
  proof (cases "m = 2 ^ 53")
    case True
    have "(2::rat) powi (e + 1) = 2 powi e * 2" by (simp add: two_powi_add)
    with True show ?thesis by (simp add: x double_value_def)
  next
    case False
    then show ?thesis by (simp add: x double_value_def)
  qed
  have q: "q = v * 2 powi e"
  proof -
    have "(2::rat) powi (- e) * 2 powi e = 2 powi (- e + e)" by (simp only: two_powi_add)
    then show ?thesis by (simp add: v_def)
  qed
  have "\<bar>double_value x - of_int a / of_int b\<bar> = \<bar>of_nat m - v\<bar> * 2 powi e"
  proof -
    have "double_value x - of_int a / of_int b = (if s then - 1 else 1) * ((of_nat m - v) * 2 powi e)"
      by (simp add: val ab q algebra_simps)
    then have "\<bar>double_value x - of_int a / of_int b\<bar> = \<bar>(of_nat m - v) * 2 powi e\<bar>"
      by (simp add: abs_mult)
    also have "\<dots> = \<bar>of_nat m - v\<bar> * 2 powi e"
      using two_powi_pos [of e] by (simp add: abs_mult)
    finally show ?thesis .
  qed
  also have "\<dots> \<le> 1 / 2 * 2 powi e"
    using near two_powi_pos [of e] by (simp add: mult_right_mono less_imp_le)
  also have "\<dots> = 2 powi (e - 1)"
  proof -
    have "e - 1 = e + - 1" by simp
    then have "(2::rat) powi (e - 1) = 2 powi e * 2 powi (- 1)" by (simp only: two_powi_add)
    then show ?thesis by simp
  qed
  also have "\<dots> \<le> 2 powi (exponent x - 1)"
    by (rule two_powi_mono) (simp add: x)
  finally have err: "\<bar>double_value x - of_int a / of_int b\<bar> \<le> 2 powi (exponent x - 1)" .
  have mant: "mantissa x < 2 ^ 53"
    using m_hi by (simp add: x)
  have lo: "- 1074 \<le> exponent x"
    using e_lo by (simp add: x)
  have norm: "2 ^ 52 \<le> mantissa x \<or> exponent x = - 1074"
    using v_lo m_lo by (auto simp: x)
  from err mant lo no_overflow norm show ?thesis by blast
qed

lemma double_value_130: "\<not> double_value (Double False 8660768514174031 (- 50)) \<le> 0"
  by (simp add: double_value_def power_int_minus)

lemmas run_defs =
  coresponding_files_def get_file_info_def split1_def subscript_def
  process_pair_def instantiate_aligner_def demo_env_def
  true_divide_1000_130 Aligner_def malformed_input_def double_value_130

lemma true_divide_1000_minus_8:
  "true_divide 1000 (- 8) = Inr (Double True 8796093022208000 (- 46))"
  by (simp add: divide_defs)

section \<open>Key extraction\<close>

lemma split1_no_sep: "sep \<notin> set s \<Longrightarrow> split1 sep s = [s]"
  by (simp add: split1_def)

lemma split1_at_first:
  "sep \<notin> set pre \<Longrightarrow> split1 sep (pre @ sep # post) = [pre, post]"
proof -
  assume "sep \<notin> set pre"
  then have "\<forall>c\<in>set pre. c \<noteq> sep" by auto
  then show ?thesis
    by (simp add: split1_def takeWhile_append2 dropWhile_append2)
qed

lemma get_file_info_no_dash:
  "CHR ''-'' \<notin> set filename \<Longrightarrow> get_file_info filename = Inl IndexError"
  by (simp add: get_file_info_def split1_no_sep subscript_def)

lemma get_file_info_dash:
  "CHR ''-'' \<notin> set pre \<Longrightarrow>
   get_file_info (pre @ CHR ''-'' # post) = Inr (take 4 (pre @ CHR ''-'' # post), take 10 post)"
  by (simp add: get_file_info_def split1_at_first subscript_def)

lemma get_file_info_total_iff:
  "(\<exists>k. get_file_info filename = Inr k) \<longleftrightarrow> CHR ''-'' \<in> set filename"
proof
  assume "\<exists>k. get_file_info filename = Inr k"
  then show "CHR ''-'' \<in> set filename"
    using get_file_info_no_dash [of filename] by (cases "CHR ''-'' \<in> set filename") auto
next
  assume "CHR ''-'' \<in> set filename"
  then obtain pre post where "filename = pre @ CHR ''-'' # post" "CHR ''-'' \<notin> set pre"
    by (auto dest: split_list_first)
  then show "\<exists>k. get_file_info filename = Inr k"
    using get_file_info_dash [of pre post] by auto
qed

lemma get_file_info_nonempty: "get_file_info filename = Inr k \<Longrightarrow> filename \<noteq> []"
  using get_file_info_no_dash [of filename] by auto

section \<open>The correspondence loop\<close>

lemma coresponding_loop_acc:
  "coresponding_loop bs ps acc =
     (case coresponding_loop bs ps [] of Inl e \<Rightarrow> Inl e | Inr out \<Rightarrow> Inr (acc @ out))"
proof (induction bs arbitrary: acc)
  case Nil
  show ?case by simp
next
  case (Cons b bs)
  show ?case
  proof (cases "get_file_info b")
    case (Inl e)
    then show ?thesis by simp
  next
    case (Inr k)
    show ?thesis
    proof (cases "next_match k ps")
      case (Inl e)
      with Inr show ?thesis by simp
    next
      case p: (Inr p)
      have "coresponding_loop bs ps (acc @ [(b, p)]) =
            (case coresponding_loop bs ps [] of Inl e \<Rightarrow> Inl e
             | Inr out \<Rightarrow> Inr ((acc @ [(b, p)]) @ out))"
        by (rule Cons.IH)
      moreover have "coresponding_loop bs ps ([] @ [(b, p)]) =
            (case coresponding_loop bs ps [] of Inl e \<Rightarrow> Inl e
             | Inr out \<Rightarrow> Inr (([] @ [(b, p)]) @ out))"
        by (rule Cons.IH)
      ultimately show ?thesis using Inr p
        by (simp split: sum.splits)
    qed
  qed
qed

lemma coresponding_files_Nil: "coresponding_files [] ps = Inr []"
  by (simp add: coresponding_files_def)

lemma coresponding_files_Cons:
  "coresponding_files (b # bs) ps =
     (case get_file_info b of
        Inl e \<Rightarrow> Inl e
      | Inr k \<Rightarrow>
          (case next_match k ps of
             Inl e \<Rightarrow> Inl e
           | Inr p \<Rightarrow>
               (case coresponding_files bs ps of
                  Inl e \<Rightarrow> Inl e
                | Inr out \<Rightarrow> Inr ((b, p) # out))))"
  using coresponding_loop_acc [of bs ps "[(b, p)]" for p]
  by (simp add: coresponding_files_def split: sum.splits)

lemma coresponding_files_fst:
  "coresponding_files bs ps = Inr out \<Longrightarrow> map fst out = bs"
  by (induction bs arbitrary: out)
     (auto simp: coresponding_files_Nil coresponding_files_Cons split: sum.splits)

lemma coresponding_files_entry:
  "coresponding_files bs ps = Inr out \<Longrightarrow> (b, r) \<in> set out \<Longrightarrow>
   \<exists>k. get_file_info b = Inr k \<and> next_match k ps = Inr r"
  by (induction bs arbitrary: out)
     (auto simp: coresponding_files_Nil coresponding_files_Cons split: sum.splits)

lemma coresponding_files_at:
  "coresponding_files (bs1 @ b # bs2) ps = Inr out \<Longrightarrow>
   \<exists>k. get_file_info b = Inr k \<and> next_match k ps = Inr (snd (out ! length bs1))
        \<and> fst (out ! length bs1) = b"
  by (induction bs1 arbitrary: out)
     (auto simp: coresponding_files_Cons split: sum.splits)

lemma next_match_Some:
  "next_match k ps = Inr (Some p) \<Longrightarrow> p \<in> set ps \<and> get_file_info p = Inr k"
  by (induction ps) (auto split: sum.splits if_splits)

lemma next_match_None:
  "next_match k ps = Inr None \<Longrightarrow> f \<in> set ps \<Longrightarrow>
   \<exists>k'. get_file_info f = Inr k' \<and> k' \<noteq> k"
  by (induction ps) (auto split: sum.splits if_splits)



lemma next_match_total:
  "\<forall>f\<in>set ps. CHR ''-'' \<in> set f \<Longrightarrow> \<exists>r. next_match k ps = Inr r"
proof (induction ps)
  case Nil
  show ?case by simp
next
  case (Cons f fs)
  then obtain k' where "get_file_info f = Inr k'"
    using get_file_info_total_iff [of f] by auto
  with Cons show ?case by auto
qed

lemma coresponding_files_total:
  "\<forall>f\<in>set bs \<union> set ps. CHR ''-'' \<in> set f \<Longrightarrow> \<exists>out. coresponding_files bs ps = Inr out"
proof (induction bs)
  case Nil
  show ?case by (simp add: coresponding_files_Nil)
next
  case (Cons b bs)
  then obtain k where k: "get_file_info b = Inr k"
    using get_file_info_total_iff [of b] by auto
  from Cons.prems obtain r where r: "next_match k ps = Inr r"
    using next_match_total [of ps k] by auto
  from Cons obtain out where "coresponding_files bs ps = Inr out" by auto
  with k r show ?case by (simp add: coresponding_files_Cons)
qed

lemma next_match_Some_first:
  "next_match k ps = Inr (Some p) \<Longrightarrow>
   \<exists>pre post. ps = pre @ p # post \<and> get_file_info p = Inr k
      \<and> (\<forall>f\<in>set pre. get_file_info f \<noteq> Inr k)"
proof (induction ps)
  case Nil
  then show ?case by simp
next
  case (Cons f fs)
  show ?case
  proof (cases "get_file_info f = Inr k")
    case True
    with Cons.prems have "p = f" by simp
    with True have "f # fs = [] @ p # fs \<and> get_file_info p = Inr k
        \<and> (\<forall>f\<in>set []. get_file_info f \<noteq> Inr k)"
      by simp
    then show ?thesis by blast
  next
    case False
    with Cons.prems have "next_match k fs = Inr (Some p)"
      by (auto split: sum.splits if_splits)
    from Cons.IH [OF this] obtain pre post where
      "fs = pre @ p # post" "get_file_info p = Inr k" "\<forall>f\<in>set pre. get_file_info f \<noteq> Inr k"
      by blast
    with False have "f # fs = (f # pre) @ p # post \<and> get_file_info p = Inr k
        \<and> (\<forall>g\<in>set (f # pre). get_file_info g \<noteq> Inr k)"
      by simp
    then show ?thesis by blast
  qed
qed

lemma next_match_error: "next_match k ps = Inl e \<Longrightarrow> e = IndexError"
proof (induction ps)
  case Nil
  then show ?case by simp
next
  case (Cons f fs)
  then show ?case
    using get_file_info_no_dash [of f] get_file_info_total_iff [of f]
    by (cases "get_file_info f") (auto split: if_splits)
qed

lemma next_match_raises_iff:
  "next_match k ps = Inl IndexError \<longleftrightarrow>
   (\<exists>pre f post. ps = pre @ f # post \<and> CHR ''-'' \<notin> set f
      \<and> (\<forall>g\<in>set pre. get_file_info g \<noteq> Inr k))"
proof (induction ps)
  case Nil
  show ?case by simp
next
  case (Cons f fs)
  show ?case
  proof (cases "get_file_info f")
    case (Inl e)
    then have nd: "CHR ''-'' \<notin> set f"
      using get_file_info_total_iff [of f] by auto
    then have "next_match k (f # fs) = Inl IndexError"
      by (simp add: get_file_info_no_dash)
    moreover from nd have "f # fs = [] @ f # fs \<and> CHR ''-'' \<notin> set f
        \<and> (\<forall>g\<in>set []. get_file_info g \<noteq> Inr k)"
      by simp
    then have "\<exists>pre f' post. f # fs = pre @ f' # post \<and> CHR ''-'' \<notin> set f'
        \<and> (\<forall>g\<in>set pre. get_file_info g \<noteq> Inr k)"
      by blast
    ultimately show ?thesis by simp
  next
    case (Inr k')
    then have d: "CHR ''-'' \<in> set f"
      using get_file_info_total_iff [of f] by auto
    show ?thesis
    proof (cases "k = k'")
      case True
      have "\<not> (\<exists>pre f' post. f # fs = pre @ f' # post \<and> CHR ''-'' \<notin> set f'
        \<and> (\<forall>g\<in>set pre. get_file_info g \<noteq> Inr k))"
        using d Inr True by (auto simp: Cons_eq_append_conv)
      with Inr True show ?thesis by simp
    next
      case False
      have "(\<exists>pre f' post. f # fs = pre @ f' # post \<and> CHR ''-'' \<notin> set f'
              \<and> (\<forall>g\<in>set pre. get_file_info g \<noteq> Inr k))
            \<longleftrightarrow> (\<exists>pre f' post. fs = pre @ f' # post \<and> CHR ''-'' \<notin> set f'
              \<and> (\<forall>g\<in>set pre. get_file_info g \<noteq> Inr k))"
        (is "?L \<longleftrightarrow> ?R")
      proof
        assume ?L
        then obtain pre f' post where
          a: "f # fs = pre @ f' # post" "CHR ''-'' \<notin> set f'"
            "\<forall>g\<in>set pre. get_file_info g \<noteq> Inr k"
          by blast
        with d obtain pre' where "pre = f # pre'" "fs = pre' @ f' # post"
          by (cases pre) auto
        with a show ?R by auto
      next
        assume ?R
        then obtain pre f' post where
          a: "fs = pre @ f' # post" "CHR ''-'' \<notin> set f'"
            "\<forall>g\<in>set pre. get_file_info g \<noteq> Inr k"
          by blast
        with Inr False have "f # fs = (f # pre) @ f' # post \<and> CHR ''-'' \<notin> set f'
            \<and> (\<forall>g\<in>set (f # pre). get_file_info g \<noteq> Inr k)"
          by auto
        then show ?L by blast
      qed
      with Inr False Cons.IH show ?thesis by simp
    qed
  qed
qed

lemma coresponding_files_error: "coresponding_files bs ps = Inl e \<Longrightarrow> e = IndexError"
proof (induction bs)
  case Nil
  then show ?case by (simp add: coresponding_files_Nil)
next
  case (Cons b bs)
  then show ?case
    using get_file_info_no_dash [of b] get_file_info_total_iff [of b] next_match_error [of _ ps]
    by (auto simp: coresponding_files_Cons split: sum.splits)
qed

lemma coresponding_files_raises_iff:
  "coresponding_files bs ps = Inl IndexError \<longleftrightarrow>
   (\<exists>b\<in>set bs. CHR ''-'' \<notin> set b
      \<or> (\<exists>k. get_file_info b = Inr k \<and> next_match k ps = Inl IndexError))"
proof (induction bs)
  case Nil
  show ?case by (simp add: coresponding_files_Nil)
next
  case (Cons b bs)
  show ?case
  proof (cases "get_file_info b")
    case (Inl e)
    then have "CHR ''-'' \<notin> set b"
      using get_file_info_total_iff [of b] by auto
    then show ?thesis
      by (simp add: coresponding_files_Cons get_file_info_no_dash)
  next
    case (Inr k)
    then have d: "CHR ''-'' \<in> set b"
      using get_file_info_total_iff [of b] by auto
    show ?thesis
    proof (cases "next_match k ps")
      case (Inl e)
      then have nm: "next_match k ps = Inl IndexError"
        using next_match_error [of k ps e] by simp
      with Inr have "coresponding_files (b # bs) ps = Inl IndexError"
        by (simp add: coresponding_files_Cons)
      moreover from Inr nm have "\<exists>b'\<in>set (b # bs). CHR ''-'' \<notin> set b'
          \<or> (\<exists>k. get_file_info b' = Inr k \<and> next_match k ps = Inl IndexError)"
        by (intro bexI [of _ b]) simp_all
      ultimately show ?thesis by blast
    next
      case r: (Inr r)
      with Inr d Cons.IH show ?thesis
        by (auto simp: coresponding_files_Cons split: sum.splits
            dest: coresponding_files_error)
    qed
  qed
qed

lemma coresponding_files_nth:
  assumes "coresponding_files bs ps = Inr out" and "i < length bs"
  shows "\<exists>k. get_file_info (bs ! i) = Inr k \<and> next_match k ps = Inr (snd (out ! i))"
proof -
  from assms(2) have "bs = take i bs @ bs ! i # drop (Suc i) bs"
    by (rule id_take_nth_drop)
  with assms(1) have "coresponding_files (take i bs @ bs ! i # drop (Suc i) bs) ps = Inr out"
    by simp
  moreover from assms(2) have "length (take i bs) = i" by simp
  ultimately show ?thesis
    using coresponding_files_at [of "take i bs" "bs ! i" "drop (Suc i) bs" ps out] by auto
qed

section \<open>The loading loop\<close>

lemma process_pair_acc:
  "process_pair env pair (ss, es) =
     (case process_pair env pair ([], []) of
        Inl e \<Rightarrow> Inl e
      | Inr (ss', es') \<Rightarrow> Inr (ss @ ss', es @ es'))"
  by (cases pair) (simp add: process_pair_def split: sum.splits option.splits)

lemma process_pairs_acc:
  "process_pairs env cf (ss, es) =
     (case process_pairs env cf ([], []) of
        Inl e \<Rightarrow> Inl e
      | Inr (ss', es') \<Rightarrow> Inr (ss @ ss', es @ es'))"
proof (induction cf arbitrary: ss es)
  case Nil
  show ?case by simp
next
  case (Cons pair cf)
  show ?case
  proof (cases "process_pair env pair ([], [])")
    case (Inl e)
    then show ?thesis
      using process_pair_acc [of env pair ss es] by simp
  next
    case (Inr st1)
    obtain ss1 es1 where st1: "st1 = (ss1, es1)" by (cases st1)
    have a: "process_pair env pair (ss, es) = Inr (ss @ ss1, es @ es1)"
      using process_pair_acc [of env pair ss es] Inr st1 by simp
    show ?thesis
      using Cons.IH [of "ss @ ss1" "es @ es1"] Cons.IH [of ss1 es1] a Inr st1
      by (simp split: sum.splits)
  qed
qed

lemma process_pairs_append:
  "process_pairs env (xs @ ys) st =
     (case process_pairs env xs st of Inl e \<Rightarrow> Inl e | Inr st' \<Rightarrow> process_pairs env ys st')"
  by (induction xs arbitrary: st) (auto split: sum.splits)

lemma process_pairs_split:
  "process_pairs env (xs @ ys) ([], []) =
     (case process_pairs env xs ([], []) of
        Inl e \<Rightarrow> Inl e
      | Inr (ss1, es1) \<Rightarrow>
          (case process_pairs env ys ([], []) of
             Inl e \<Rightarrow> Inl e
           | Inr (ss2, es2) \<Rightarrow> Inr (ss1 @ ss2, es1 @ es2)))"
proof (cases "process_pairs env xs ([], [])")
  case (Inl e)
  then show ?thesis by (simp add: process_pairs_append)
next
  case (Inr st1)
  obtain ss1 es1 where "st1 = (ss1, es1)" by (cases st1)
  with Inr show ?thesis
    using process_pairs_acc [of env ys ss1 es1] by (simp add: process_pairs_append)
qed

lemma process_pair_reaches:
  assumes "Session env b = Inr session" and "p \<noteq> []" and "import_ppd env p = Inr photo"
    and "times_dict session ''rsync'' = Some ts"
  shows "process_pair env (b, Some p) (ss, es) =
     (case instantiate_aligner env ts (pulse_inds_2 photo) (sampling_rate photo) of
        Inl e \<Rightarrow> if e = RsyncError then Inr (ss, es @ [(b, p)]) else Inl e
      | Inr al \<Rightarrow>
          Inr (ss @ [session\<lparr>photo_data := Some (photo\<lparr>aligner := Some al\<rparr>)\<rparr>], es))"
  using assms by (simp add: process_pair_def)

lemma process_pair_cases:
  assumes "process_pair env (b, p) ([], []) = Inr (ss, es)" and "p \<noteq> Some []"
  shows "(p = None \<and> ss = [] \<and> es = [])
       \<or> (\<exists>pf. p = Some pf \<and> ss = [] \<and> es = [(b, pf)])
       \<or> (\<exists>s0 pd. Session env b = Inr s0 \<and> ss = [s0\<lparr>photo_data := Some pd\<rparr>] \<and> es = []
             \<and> p \<noteq> None)"
  using assms
  by (auto simp: process_pair_def split: sum.splits option.splits if_splits)

text \<open>The aligner of the test data, at 130 Hz.\<close>

lemma demo_loads:
  "Session demo_env b
     = Inr \<lparr>times_dict = [''rsync'' \<mapsto> [0, 1000, 2000]], photo_data = None\<rparr>"
  "import_ppd demo_env ''m001-2019-01-01.ppd''
     = Inr \<lparr>pulse_inds_2 = [0, 130, 260], sampling_rate = 130, aligner = None\<rparr>"
  "import_ppd demo_env ''m003-2019-01-01.ppd''
     = Inr \<lparr>pulse_inds_2 = [0, 130], sampling_rate = 130, aligner = None\<rparr>"
  by (simp_all add: demo_env_def)

lemma demo_aligner:
  "Rsync_aligner demo_env A B (Double False 8660768514174031 (- 50)) =
     (if A = [] \<or> B = [] \<or> \<not> sorted_wrt (<) A \<or> \<not> sorted_wrt (<) B
      then Inl MalformedInput
      else if length A = length B
      then Inr (A, B, Double False 8660768514174031 (- 50))
      else Inl RsyncError)"
  by (simp add: demo_env_def Aligner_def malformed_input_def double_value_130)

lemma demo_instantiate:
  "instantiate_aligner demo_env A B 130 =
     Rsync_aligner demo_env A B (Double False 8660768514174031 (- 50))"
  by (simp add: instantiate_aligner_def true_divide_1000_130)

lemma demo_m001:
  "process_pairs demo_env [(''m001-2019-01-01.txt'', Some ''m001-2019-01-01.ppd'')] ([], [])
     = Inr ([\<lparr>times_dict = [''rsync'' \<mapsto> [0, 1000, 2000]],
              photo_data = Some \<lparr>pulse_inds_2 = [0, 130, 260], sampling_rate = 130,
                aligner = Some ([0, 1000, 2000], [0, 130, 260],
                  Double False 8660768514174031 (- 50))\<rparr>\<rparr>], [])"
proof -
  have "process_pair demo_env (''m001-2019-01-01.txt'', Some ''m001-2019-01-01.ppd'') ([], [])
     = Inr ([\<lparr>times_dict = [''rsync'' \<mapsto> [0, 1000, 2000]],
              photo_data = Some \<lparr>pulse_inds_2 = [0, 130, 260], sampling_rate = 130,
                aligner = Some ([0, 1000, 2000], [0, 130, 260],
                  Double False 8660768514174031 (- 50))\<rparr>\<rparr>], [])"
    by (simp add: process_pair_def demo_instantiate demo_aligner demo_loads)
  then show ?thesis by simp
qed

section \<open>The summary and the account of the files\<close>

lemma summary_first:
  "hd (summary ss ms es) =
     CHR 0x0A # ''Matching behaviour and photometry data found for ''
       @ str_of_nat (length ss) @ '' sessions.''"
  by (simp add: summary_def)

lemma summary_missing: "b \<in> set ms \<Longrightarrow> ''    '' @ b \<in> set (summary ss ms es)"
  by (auto simp: summary_def)

lemma summary_sync_error:
  "(b, p) \<in> set es \<Longrightarrow> ''    '' @ b @ '' : '' @ p \<in> set (summary ss ms es)"
  by (force simp: summary_def)


lemma missing_sessions_Cons:
  "missing_sessions ((b, p) # cf) = (if p = None then b # missing_sessions cf else missing_sessions cf)"
  by (simp add: missing_sessions_def)

lemma process_pairs_Cons:
  "process_pairs env (pair # cf) ([], []) =
     (case process_pair env pair ([], []) of
        Inl e \<Rightarrow> Inl e
      | Inr (ss1, es1) \<Rightarrow>
          (case process_pairs env cf ([], []) of
             Inl e \<Rightarrow> Inl e
           | Inr (ss2, es2) \<Rightarrow> Inr (ss1 @ ss2, es1 @ es2)))"
  using process_pairs_split [of env "[pair]" cf] by (simp split: sum.splits)

lemma process_pairs_accounts:
  assumes "process_pairs env cf ([], []) = Inr (ss, es)"
    and "\<forall>e\<in>set cf. snd e \<noteq> Some []"
  shows "\<exists>ok. list_all2 (\<lambda>b s. \<exists>s0 pd. Session env b = Inr s0 \<and> s = s0\<lparr>photo_data := Some pd\<rparr>) ok ss
            \<and> mset ok + mset (missing_sessions cf) + mset (map fst es) = mset (map fst cf)"
  using assms
proof (induction cf arbitrary: ss es)
  case Nil
  then show ?case by (simp add: missing_sessions_def)
next
  case (Cons pair cf)
  obtain b p where pair: "pair = (b, p)" by (cases pair)
  from Cons.prems(1) obtain ss1 es1 ss2 es2 where
    one: "process_pair env (b, p) ([], []) = Inr (ss1, es1)" and
    rest: "process_pairs env cf ([], []) = Inr (ss2, es2)" and
    ss: "ss = ss1 @ ss2" and es: "es = es1 @ es2"
    unfolding pair process_pairs_Cons by (auto split: sum.splits)
  from Cons.prems(2) have p: "p \<noteq> Some []" and cf: "\<forall>e\<in>set cf. snd e \<noteq> Some []"
    by (auto simp: pair)
  from Cons.IH [OF rest cf] obtain ok where
    ok: "list_all2 (\<lambda>b s. \<exists>s0 pd. Session env b = Inr s0 \<and> s = s0\<lparr>photo_data := Some pd\<rparr>) ok ss2"
    and cnt: "mset ok + mset (missing_sessions cf) + mset (map fst es2) = mset (map fst cf)"
    by blast
  from process_pair_cases [OF one p] consider
      (missing) "p = None" "ss1 = []" "es1 = []"
    | (failed) pf where "p = Some pf" "ss1 = []" "es1 = [(b, pf)]"
    | (aligned) s0 pd where "Session env b = Inr s0" "ss1 = [s0\<lparr>photo_data := Some pd\<rparr>]"
        "es1 = []" "p \<noteq> None"
    by blast
  then show ?case
  proof cases
    case missing
    with ok cnt show ?thesis
      by (intro exI [of _ ok]) (simp add: pair ss es missing_sessions_Cons)
  next
    case failed
    with ok cnt show ?thesis
      by (intro exI [of _ ok]) (simp add: pair ss es missing_sessions_Cons)
  next
    case aligned
    with ok cnt show ?thesis
      by (intro exI [of _ "b # ok"]) (auto simp: pair ss es missing_sessions_Cons)
  qed
qed

lemma coresponding_files_nonempty_match:
  "coresponding_files bs ps = Inr out \<Longrightarrow> e \<in> set out \<Longrightarrow> snd e \<noteq> Some []"
  using coresponding_files_entry [of bs ps out "fst e" "snd e"]
    next_match_Some [of _ ps "[]"] get_file_info_nonempty [of "[]"]
  by (cases e) auto

section \<open>The claims\<close>

text \<open>
  C10: \<open>_get_file_info\<close> is partial. A file name with a \<open>'-'\<close>, split at its first \<open>'-'\<close>
  into \<open>pre\<close> and \<open>post\<close>, gives the pair of its first 4 characters and of the first 10
  characters of \<open>post\<close>, whatever else the name holds; a file name with no \<open>'-'\<close> raises
  \<open>IndexError\<close> and gives no key.
\<close>

theorem get_file_info_partial:
  "(CHR ''-'' \<notin> set pre \<longrightarrow>
      get_file_info (pre @ CHR ''-'' # post)
        = Inr (take 4 (pre @ CHR ''-'' # post), take 10 post))
   \<and> (CHR ''-'' \<notin> set filename \<longrightarrow> get_file_info filename = Inl IndexError)"
  by (simp add: get_file_info_dash get_file_info_no_dash)

theorem get_file_info_partial_witness:
  "get_file_info ''m001-2019-01-01-120000.txt'' = Inr (''m001'', ''2019-01-01'')
   \<and> get_file_info ''a-b'' = Inr (''a-b'', ''b'')
   \<and> get_file_info ''notes.txt'' = Inl IndexError"
  using get_file_info_partial [of "''m001''" "''2019-01-01-120000.txt''" "''notes.txt''"]
    get_file_info_partial [of "''a''" "''b''" "''notes.txt''"]
  by simp

text \<open>
  C8: on the behaviour files \<open>m001-2019-01-01.txt\<close> and \<open>m002-2019-01-01.txt\<close> and the
  photometry file \<open>m001-2019-01-01.ppd\<close>, the key of subject ID and date pairs the first
  behaviour file with the photometry file and records the second with \<open>None\<close>.
\<close>

theorem example_correspondence:
  "coresponding_files [''m001-2019-01-01.txt'', ''m002-2019-01-01.txt'']
     [''m001-2019-01-01.ppd'']
   = Inr [(''m001-2019-01-01.txt'', Some ''m001-2019-01-01.ppd''),
          (''m002-2019-01-01.txt'', None)]"
  by (simp add: coresponding_files_def get_file_info_def split1_def subscript_def)

text \<open>
  C2, as stated for every list of names, fails: a behaviour folder that also holds
  \<open>.DS_Store\<close> makes \<open>_get_file_info\<close> raise \<open>IndexError\<close>, and the step produces no
  list at all.
\<close>

theorem coresponding_files_every_list_counterexample:
  "coresponding_files [''m001-2019-01-01.txt'', ''.DS_Store''] [''m001-2019-01-01.ppd'']
   = Inl IndexError"
  by (simp add: coresponding_files_def get_file_info_def split1_def subscript_def)

text \<open>
  C2, amended: whenever the correspondence step returns, its list has exactly one entry
  for each behaviour file name, in the order of the behaviour list, none dropped and none
  repeated; the entry of a name with the key \<open>k\<close> holds the first name of the photometry
  list whose key is \<open>k\<close>, or \<open>None\<close> when no photometry name has the key \<open>k\<close>. The
  step returns when every file name of both lists contains a \<open>'-'\<close>. It raises nothing
  but \<open>IndexError\<close>, and it raises \<open>IndexError\<close>, producing no list, exactly when it
  examines a name without \<open>'-'\<close>: a behaviour name, or a photometry name that stands
  before every match of some behaviour name.
\<close>

theorem coresponding_files_one_entry_each:
  "(coresponding_files bs ps = Inr out \<longrightarrow>
      map fst out = bs
      \<and> (\<forall>i<length bs. \<exists>k. get_file_info (bs ! i) = Inr k
            \<and> (snd (out ! i) = None \<and> (\<forall>f\<in>set ps. get_file_info f \<noteq> Inr k)
               \<or> (\<exists>pre p post. snd (out ! i) = Some p \<and> ps = pre @ p # post
                     \<and> get_file_info p = Inr k
                     \<and> (\<forall>f\<in>set pre. get_file_info f \<noteq> Inr k)))))
   \<and> ((\<forall>f\<in>set bs \<union> set ps. CHR ''-'' \<in> set f) \<longrightarrow>
        (\<exists>out'. coresponding_files bs ps = Inr out'))
   \<and> ((\<exists>out'. coresponding_files bs ps = Inr out')
        \<or> coresponding_files bs ps = Inl IndexError)
   \<and> (coresponding_files bs ps = Inl IndexError \<longleftrightarrow>
        (\<exists>b\<in>set bs. CHR ''-'' \<notin> set b
           \<or> (\<exists>k pre f post. get_file_info b = Inr k \<and> ps = pre @ f # post
                 \<and> CHR ''-'' \<notin> set f
                 \<and> (\<forall>g\<in>set pre. get_file_info g \<noteq> Inr k))))"
proof -
  have order: "map fst out = bs" if "coresponding_files bs ps = Inr out"
    using that by (rule coresponding_files_fst)
  have entry: "\<exists>k. get_file_info (bs ! i) = Inr k
            \<and> (snd (out ! i) = None \<and> (\<forall>f\<in>set ps. get_file_info f \<noteq> Inr k)
               \<or> (\<exists>pre p post. snd (out ! i) = Some p \<and> ps = pre @ p # post
                     \<and> get_file_info p = Inr k
                     \<and> (\<forall>f\<in>set pre. get_file_info f \<noteq> Inr k)))"
    if run: "coresponding_files bs ps = Inr out" and i: "i < length bs" for i
  proof -
    from coresponding_files_nth [OF run i] obtain k where
      k: "get_file_info (bs ! i) = Inr k" and m: "next_match k ps = Inr (snd (out ! i))"
      by blast
    show ?thesis
    proof (cases "snd (out ! i)")
      case None
      with m have "\<forall>f\<in>set ps. get_file_info f \<noteq> Inr k"
        using next_match_None [of k ps] by fastforce
      with k None show ?thesis by blast
    next
      case (Some p)
      with m have "next_match k ps = Inr (Some p)" by simp
      from next_match_Some_first [OF this] k Some show ?thesis by blast
    qed
  qed
  have total: "\<exists>out'. coresponding_files bs ps = Inr out'"
    if "\<forall>f\<in>set bs \<union> set ps. CHR ''-'' \<in> set f"
    using that by (rule coresponding_files_total)
  have only: "(\<exists>out'. coresponding_files bs ps = Inr out')
        \<or> coresponding_files bs ps = Inl IndexError"
    using coresponding_files_error [of bs ps] by (cases "coresponding_files bs ps") auto
  have raises: "coresponding_files bs ps = Inl IndexError \<longleftrightarrow>
        (\<exists>b\<in>set bs. CHR ''-'' \<notin> set b
           \<or> (\<exists>k pre f post. get_file_info b = Inr k \<and> ps = pre @ f # post
                 \<and> CHR ''-'' \<notin> set f
                 \<and> (\<forall>g\<in>set pre. get_file_info g \<noteq> Inr k)))"
    unfolding coresponding_files_raises_iff next_match_raises_iff by blast
  from order entry total only raises show ?thesis by blast
qed

theorem coresponding_files_one_entry_each_witness:
  "coresponding_files [''m001-2019-01-01.txt'', ''m003-2019-01-02.txt'']
     [''m003-2019-01-02.ppd'']
     = Inr [(''m001-2019-01-01.txt'', None), (''m003-2019-01-02.txt'', Some ''m003-2019-01-02.ppd'')]
   \<and> map fst [(''m001-2019-01-01.txt'', None :: string option),
               (''m003-2019-01-02.txt'', Some ''m003-2019-01-02.ppd'')]
     = [''m001-2019-01-01.txt'', ''m003-2019-01-02.txt'']
   \<and> (\<exists>out. coresponding_files [''m001-2019-01-01.txt''] [''m001-2019-01-01.ppd'', ''notes.txt'', ''m002-2019-01-01-a.ppd''] = Inr out)
   \<and> coresponding_files [''m002-2019-01-01.txt''] [''m001-2019-01-01.ppd'', ''notes.txt'', ''m002-2019-01-01-a.ppd''] = Inl IndexError"
proof -
  have run: "coresponding_files [''m001-2019-01-01.txt'', ''m003-2019-01-02.txt'']
     [''m003-2019-01-02.ppd'']
     = Inr [(''m001-2019-01-01.txt'', None), (''m003-2019-01-02.txt'', Some ''m003-2019-01-02.ppd'')]"
    by (simp add: coresponding_files_def get_file_info_def split1_def subscript_def)
  have wf: "\<forall>f\<in>set [''m001-2019-01-01.txt'', ''m003-2019-01-02.txt'']
              \<union> set [''m003-2019-01-02.ppd'']. CHR ''-'' \<in> set f"
    by simp
  have k1: "get_file_info ''m001-2019-01-01.txt'' = Inr (''m001'', ''2019-01-01'')"
    by (simp add: get_file_info_def split1_def subscript_def)
  have k2: "get_file_info ''m002-2019-01-01.txt'' = Inr (''m002'', ''2019-01-01'')"
    by (simp add: get_file_info_def split1_def subscript_def)
  have p1: "get_file_info ''m001-2019-01-01.ppd'' = Inr (''m001'', ''2019-01-01'')"
    by (simp add: get_file_info_def split1_def subscript_def)
  have not1: "\<not> (\<exists>b\<in>set [''m001-2019-01-01.txt'']. CHR ''-'' \<notin> set b
           \<or> (\<exists>k pre f post. get_file_info b = Inr k
                 \<and> [''m001-2019-01-01.ppd'', ''notes.txt'', ''m002-2019-01-01-a.ppd''] = pre @ f # post
                 \<and> CHR ''-'' \<notin> set f
                 \<and> (\<forall>g\<in>set pre. get_file_info g \<noteq> Inr k)))"
    using p1 by (auto simp: k1 Cons_eq_append_conv)
  have "[''m001-2019-01-01.ppd'', ''notes.txt'', ''m002-2019-01-01-a.ppd''] = [''m001-2019-01-01.ppd''] @ ''notes.txt'' # [''m002-2019-01-01-a.ppd'']
       \<and> CHR ''-'' \<notin> set ''notes.txt''
       \<and> (\<forall>g\<in>set [''m001-2019-01-01.ppd'']. get_file_info g \<noteq> Inr (''m002'', ''2019-01-01''))"
    by (simp add: p1)
  with k2 have yes2: "\<exists>b\<in>set [''m002-2019-01-01.txt'']. CHR ''-'' \<notin> set b
           \<or> (\<exists>k pre f post. get_file_info b = Inr k
                 \<and> [''m001-2019-01-01.ppd'', ''notes.txt'', ''m002-2019-01-01-a.ppd''] = pre @ f # post
                 \<and> CHR ''-'' \<notin> set f
                 \<and> (\<forall>g\<in>set pre. get_file_info g \<noteq> Inr k))"
    by (intro bexI [of _ "''m002-2019-01-01.txt''"] disjI2) (blast, simp)
  from coresponding_files_one_entry_each
    [of "[''m001-2019-01-01.txt'', ''m003-2019-01-02.txt'']" "[''m003-2019-01-02.ppd'']"
        "[(''m001-2019-01-01.txt'', None), (''m003-2019-01-02.txt'', Some ''m003-2019-01-02.ppd'')]"]
    run wf
  have a: "map fst [(''m001-2019-01-01.txt'', None :: string option),
               (''m003-2019-01-02.txt'', Some ''m003-2019-01-02.ppd'')]
     = [''m001-2019-01-01.txt'', ''m003-2019-01-02.txt'']"
    by blast
  from coresponding_files_one_entry_each [of "[''m001-2019-01-01.txt'']" "[''m001-2019-01-01.ppd'', ''notes.txt'', ''m002-2019-01-01-a.ppd'']" "[]"] not1
  have b: "\<exists>out. coresponding_files [''m001-2019-01-01.txt''] [''m001-2019-01-01.ppd'', ''notes.txt'', ''m002-2019-01-01-a.ppd''] = Inr out"
    by blast
  from coresponding_files_one_entry_each [of "[''m002-2019-01-01.txt'']" "[''m001-2019-01-01.ppd'', ''notes.txt'', ''m002-2019-01-01-a.ppd'']" "[]"] yes2
  have c: "coresponding_files [''m002-2019-01-01.txt''] [''m001-2019-01-01.ppd'', ''notes.txt'', ''m002-2019-01-01-a.ppd''] = Inl IndexError"
    by blast
  from run a b c show ?thesis by blast
qed







text \<open>
  C1: when the construction of the aligner for the pair \<open>(b, p)\<close> raises
  \<open>RsyncError\<close>, the iteration appends \<open>(b, p)\<close> to \<open>sync_errors\<close>, leaves
  \<open>sessions\<close> as it is, and the loop goes on. In a list of pairs with \<open>xs\<close> before and
  \<open>ys\<close> after it, the result is made of the results of \<open>xs\<close> and of \<open>ys\<close> alone, with
  \<open>(b, p)\<close> between their sync errors: it is the result of the list without the pair
  (the third equation), but for that one entry. The outcome of no other pair changes.
\<close>

theorem rsync_error_skips_pair:
  assumes "Session env b = Inr session" and "p \<noteq> []" and "import_ppd env p = Inr photo"
    and "times_dict session ''rsync'' = Some ts"
    and "instantiate_aligner env ts (pulse_inds_2 photo) (sampling_rate photo) = Inl RsyncError"
  shows "process_pair env (b, Some p) (ss, es) = Inr (ss, es @ [(b, p)])
       \<and> process_pairs env (xs @ (b, Some p) # ys) ([], []) =
           (case process_pairs env xs ([], []) of
              Inl e \<Rightarrow> Inl e
            | Inr (ss1, es1) \<Rightarrow>
                (case process_pairs env ys ([], []) of
                   Inl e \<Rightarrow> Inl e
                 | Inr (ss2, es2) \<Rightarrow> Inr (ss1 @ ss2, es1 @ (b, p) # es2)))
       \<and> process_pairs env (xs @ ys) ([], []) =
           (case process_pairs env xs ([], []) of
              Inl e \<Rightarrow> Inl e
            | Inr (ss1, es1) \<Rightarrow>
                (case process_pairs env ys ([], []) of
                   Inl e \<Rightarrow> Inl e
                 | Inr (ss2, es2) \<Rightarrow> Inr (ss1 @ ss2, es1 @ es2)))"
proof (intro conjI)
  have one: "process_pair env (b, Some p) (ss', es') = Inr (ss', es' @ [(b, p)])" for ss' es'
    using assms by (simp add: process_pair_reaches)
  then show "process_pair env (b, Some p) (ss, es) = Inr (ss, es @ [(b, p)])" .
  have "process_pairs env ((b, Some p) # ys) ([], []) =
          (case process_pairs env ys ([], []) of
             Inl e \<Rightarrow> Inl e
           | Inr (ss2, es2) \<Rightarrow> Inr (ss2, (b, p) # es2))"
    unfolding process_pairs_Cons one [of "[]" "[]"] by (simp split: sum.splits)
  then show "process_pairs env (xs @ (b, Some p) # ys) ([], []) =
           (case process_pairs env xs ([], []) of
              Inl e \<Rightarrow> Inl e
            | Inr (ss1, es1) \<Rightarrow>
                (case process_pairs env ys ([], []) of
                   Inl e \<Rightarrow> Inl e
                 | Inr (ss2, es2) \<Rightarrow> Inr (ss1 @ ss2, es1 @ (b, p) # es2)))"
    by (simp add: process_pairs_split [of env xs "(b, Some p) # ys"] split: sum.splits)
  show "process_pairs env (xs @ ys) ([], []) =
           (case process_pairs env xs ([], []) of
              Inl e \<Rightarrow> Inl e
            | Inr (ss1, es1) \<Rightarrow>
                (case process_pairs env ys ([], []) of
                   Inl e \<Rightarrow> Inl e
                 | Inr (ss2, es2) \<Rightarrow> Inr (ss1 @ ss2, es1 @ es2)))"
    by (rule process_pairs_split)
qed

theorem rsync_error_skips_pair_witness:
  "process_pair demo_env (''m003-2019-01-01.txt'', Some ''m003-2019-01-01.ppd'') ([], [])
     = Inr ([], [(''m003-2019-01-01.txt'', ''m003-2019-01-01.ppd'')])
   \<and> process_pairs demo_env
       ([(''m001-2019-01-01.txt'', Some ''m001-2019-01-01.ppd'')]
          @ (''m003-2019-01-01.txt'', Some ''m003-2019-01-01.ppd'')
          # [(''m002-2019-01-01.txt'', None)]) ([], [])
     = Inr ([\<lparr>times_dict = [''rsync'' \<mapsto> [0, 1000, 2000]],
              photo_data = Some \<lparr>pulse_inds_2 = [0, 130, 260], sampling_rate = 130,
                aligner = Some ([0, 1000, 2000], [0, 130, 260], Double False 8660768514174031 (- 50))\<rparr>\<rparr>],
            [(''m003-2019-01-01.txt'', ''m003-2019-01-01.ppd'')])"
proof -
  have s: "Session demo_env ''m003-2019-01-01.txt''
             = Inr \<lparr>times_dict = [''rsync'' \<mapsto> [0, 1000, 2000]], photo_data = None\<rparr>"
    by (simp add: demo_env_def)
  have i: "import_ppd demo_env ''m003-2019-01-01.ppd''
             = Inr \<lparr>pulse_inds_2 = [0, 130], sampling_rate = 130, aligner = None\<rparr>"
    by (simp add: demo_env_def)
  have t: "times_dict \<lparr>times_dict = [''rsync'' \<mapsto> [0, 1000, 2000]],
             photo_data = (None :: (int list \<times> int list \<times> double) photo_data option)\<rparr> ''rsync''
             = Some [0, 1000, 2000]"
    by simp
  have a: "instantiate_aligner demo_env [0, 1000, 2000]
             (pulse_inds_2 \<lparr>pulse_inds_2 = [0, 130], sampling_rate = 130,
                aligner = (None :: (int list \<times> int list \<times> double) option)\<rparr>)
             (sampling_rate \<lparr>pulse_inds_2 = [0, 130], sampling_rate = 130,
                aligner = (None :: (int list \<times> int list \<times> double) option)\<rparr>) = Inl RsyncError"
    by (simp add: demo_instantiate demo_aligner)
  have xs: "process_pairs demo_env [(''m001-2019-01-01.txt'', Some ''m001-2019-01-01.ppd'')]
              ([], [])
            = Inr ([\<lparr>times_dict = [''rsync'' \<mapsto> [0, 1000, 2000]],
              photo_data = Some \<lparr>pulse_inds_2 = [0, 130, 260], sampling_rate = 130,
                aligner = Some ([0, 1000, 2000], [0, 130, 260], Double False 8660768514174031 (- 50))\<rparr>\<rparr>], [])"
    by (rule demo_m001)
  have ys: "process_pairs demo_env [(''m002-2019-01-01.txt'', None)] ([], []) = Inr ([], [])"
    by (simp add: process_pair_def demo_env_def)
  from rsync_error_skips_pair [OF s _ i t a,
      of "[]" "[]" "[(''m001-2019-01-01.txt'', Some ''m001-2019-01-01.ppd'')]"
         "[(''m002-2019-01-01.txt'', None)]"] xs ys
  show ?thesis by simp
qed

text \<open>
  C5: for a pair that reaches the alignment (both files load, the session has sync
  pulses, the sampling rate is not 0), the aligner is constructed from the sync pulse
  times of the behaviour session as \<open>pulse_times_A\<close>, the sync pulse samples
  \<open>pulse_inds_2\<close> of the photometry data as \<open>pulse_times_B\<close>, and 1000 divided by the
  sampling rate as \<open>units_B\<close>; what the iteration does next depends on that call alone.
  The division is the one of Python, of the integer 1000 by the sampling rate: it raises
  nothing on a sampling rate other than 0, and \<open>units_B\<close> is a float within half a unit
  in the last place of the exact quotient.
\<close>

theorem aligner_arguments:
  assumes "Session env b = Inr session" and "p \<noteq> []" and "import_ppd env p = Inr photo"
    and "times_dict session ''rsync'' = Some sync_pulse_times"
    and "sampling_rate photo \<noteq> 0"
  shows "\<exists>units_B. true_divide 1000 (sampling_rate photo) = Inr units_B
       \<and> \<bar>double_value units_B - 1000 / of_int (sampling_rate photo)\<bar>
            \<le> 2 powi (exponent units_B - 1)
       \<and> mantissa units_B < 2 ^ 53
       \<and> - 1074 \<le> exponent units_B \<and> exponent units_B \<le> 971
       \<and> (2 ^ 52 \<le> mantissa units_B \<or> exponent units_B = - 1074)
       \<and> process_pair env (b, Some p) (ss, es) =
           (case Rsync_aligner env sync_pulse_times (pulse_inds_2 photo) units_B of
              Inl e \<Rightarrow> if e = RsyncError then Inr (ss, es @ [(b, p)]) else Inl e
            | Inr al \<Rightarrow>
                Inr (ss @ [session\<lparr>photo_data := Some (photo\<lparr>aligner := Some al\<rparr>)\<rparr>], es))"
proof -
  from true_divide_1000 [OF assms(5)] obtain units_B where
    u: "true_divide 1000 (sampling_rate photo) = Inr units_B"
    by blast
  with assms(1-4) have "process_pair env (b, Some p) (ss, es) =
           (case Rsync_aligner env sync_pulse_times (pulse_inds_2 photo) units_B of
              Inl e \<Rightarrow> if e = RsyncError then Inr (ss, es @ [(b, p)]) else Inl e
            | Inr al \<Rightarrow>
                Inr (ss @ [session\<lparr>photo_data := Some (photo\<lparr>aligner := Some al\<rparr>)\<rparr>], es))"
    by (simp add: process_pair_reaches instantiate_aligner_def)
  moreover from true_divide_nearest [OF assms(5) u]
  have "\<bar>double_value units_B - 1000 / of_int (sampling_rate photo)\<bar>
            \<le> 2 powi (exponent units_B - 1)
       \<and> mantissa units_B < 2 ^ 53
       \<and> - 1074 \<le> exponent units_B \<and> exponent units_B \<le> 971
       \<and> (2 ^ 52 \<le> mantissa units_B \<or> exponent units_B = - 1074)"
    by simp
  ultimately show ?thesis using u by blast
qed

theorem aligner_arguments_witness:
  "process_pair demo_env (''m001-2019-01-01.txt'', Some ''m001-2019-01-01.ppd'') ([], [])
     = Inr ([\<lparr>times_dict = [''rsync'' \<mapsto> [0, 1000, 2000]],
              photo_data = Some \<lparr>pulse_inds_2 = [0, 130, 260], sampling_rate = 130,
                aligner = Some ([0, 1000, 2000], [0, 130, 260],
                  Double False 8660768514174031 (- 50))\<rparr>\<rparr>], [])
   \<and> \<bar>double_value (Double False 8660768514174031 (- 50)) - 1000 / 130\<bar> \<le> 2 powi (- 51)"
proof -
  have s: "Session demo_env ''m001-2019-01-01.txt''
             = Inr \<lparr>times_dict = [''rsync'' \<mapsto> [0, 1000, 2000]], photo_data = None\<rparr>"
    by (simp add: demo_env_def)
  have i: "import_ppd demo_env ''m001-2019-01-01.ppd''
             = Inr \<lparr>pulse_inds_2 = [0, 130, 260], sampling_rate = 130, aligner = None\<rparr>"
    by (simp add: demo_env_def)
  have t: "times_dict \<lparr>times_dict = [''rsync'' \<mapsto> [0, 1000, 2000]],
             photo_data = (None :: (int list \<times> int list \<times> double) photo_data option)\<rparr> ''rsync''
             = Some [0, 1000, 2000]"
    by simp
  have r: "sampling_rate \<lparr>pulse_inds_2 = [0, 130, 260], sampling_rate = 130,
             aligner = (None :: (int list \<times> int list \<times> double) option)\<rparr> \<noteq> 0"
    by simp
  from aligner_arguments [OF s _ i t r, of "[]" "[]"] obtain units_B where
    u: "true_divide 1000 130 = Inr units_B"
    and near: "\<bar>double_value units_B - 1000 / 130\<bar> \<le> 2 powi (exponent units_B - 1)"
    and run: "process_pair demo_env (''m001-2019-01-01.txt'', Some ''m001-2019-01-01.ppd'')
                ([], []) =
           (case Rsync_aligner demo_env [0, 1000, 2000] [0, 130, 260] units_B of
              Inl e \<Rightarrow> if e = RsyncError
                then Inr ([], [] @ [(''m001-2019-01-01.txt'', ''m001-2019-01-01.ppd'')])
                else Inl e
            | Inr al \<Rightarrow>
                Inr ([] @ [\<lparr>times_dict = [''rsync'' \<mapsto> [0, 1000, 2000]],
                       photo_data = None\<rparr>
                     \<lparr>photo_data := Some (\<lparr>pulse_inds_2 = [0, 130, 260], sampling_rate = 130,
                         aligner = None\<rparr>\<lparr>aligner := Some al\<rparr>)\<rparr>], []))"
    by auto
  from u have units: "units_B = Double False 8660768514174031 (- 50)"
    by (simp add: true_divide_1000_130)
  from run have "process_pair demo_env (''m001-2019-01-01.txt'', Some ''m001-2019-01-01.ppd'') ([], [])
     = Inr ([\<lparr>times_dict = [''rsync'' \<mapsto> [0, 1000, 2000]],
              photo_data = Some \<lparr>pulse_inds_2 = [0, 130, 260], sampling_rate = 130,
                aligner = Some ([0, 1000, 2000], [0, 130, 260],
                  Double False 8660768514174031 (- 50))\<rparr>\<rparr>], [])"
    by (simp add: units demo_aligner)
  moreover from near
  have "\<bar>double_value (Double False 8660768514174031 (- 50)) - 1000 / 130\<bar> \<le> 2 powi (- 51)"
    by (simp add: units)
  ultimately show ?thesis by blast
qed

text \<open>
  C9: the loop catches \<open>RsyncError\<close> only. Let the pairs \<open>xs\<close> before \<open>(b, p)\<close> be
  processed and let \<open>(b, p)\<close> reach the construction of the aligner. With the
  constructor of the specification, a malformed input (a unit scale that is not positive,
  a pulse sequence that is empty or not increasing) ends the whole loop with the fatal
  error, whatever pairs \<open>ys\<close> follow; so does a sampling rate that is not positive, whose
  unit scale is not positive or whose division raises \<open>ZeroDivisionError\<close> in the script
  itself. With any aligner, every exception \<open>e\<close> of the construction other than
  \<open>RsyncError\<close> ends the loop with \<open>e\<close>: the pair is not collected in \<open>sync_errors\<close>,
  and no list is returned.
\<close>

theorem malformed_input_aborts:
  assumes "process_pairs env xs st = Inr st'"
    and "Session env b = Inr session" and "p \<noteq> []" and "import_ppd env p = Inr photo"
    and "times_dict session ''rsync'' = Some ts"
  shows "(Rsync_aligner env = Aligner fit
            \<and> true_divide 1000 (sampling_rate photo) = Inr units_B
            \<and> malformed_input ts (pulse_inds_2 photo) units_B
          \<longrightarrow> process_pairs env (xs @ (b, Some p) # ys) st = Inl MalformedInput)
       \<and> (Rsync_aligner env = Aligner fit \<and> sampling_rate photo \<le> 0
          \<longrightarrow> process_pairs env (xs @ (b, Some p) # ys) st
                = Inl (if sampling_rate photo = 0 then ZeroDivisionError else MalformedInput))
       \<and> (instantiate_aligner env ts (pulse_inds_2 photo) (sampling_rate photo) = Inl e
            \<and> e \<noteq> RsyncError
          \<longrightarrow> process_pairs env (xs @ (b, Some p) # ys) st = Inl e)"
proof -
  obtain ss es where st': "st' = (ss, es)" by (cases st')
  have fatal: "process_pairs env (xs @ (b, Some p) # ys) st = Inl e'"
    if "instantiate_aligner env ts (pulse_inds_2 photo) (sampling_rate photo) = Inl e'"
      and "e' \<noteq> RsyncError" for e'
  proof -
    have "process_pair env (b, Some p) (ss, es) = Inl e'"
      using assms(2-5) that by (simp add: process_pair_reaches)
    then show ?thesis
      using assms(1) by (simp add: process_pairs_append st')
  qed
  have malformed: "instantiate_aligner env ts (pulse_inds_2 photo) (sampling_rate photo)
        = Inl MalformedInput"
    if "Rsync_aligner env = Aligner fit"
      and "true_divide 1000 (sampling_rate photo) = Inr u"
      and "malformed_input ts (pulse_inds_2 photo) u" for u
    using that by (simp add: instantiate_aligner_def Aligner_def)
  have 1: "process_pairs env (xs @ (b, Some p) # ys) st = Inl MalformedInput"
    if "Rsync_aligner env = Aligner fit"
      and "true_divide 1000 (sampling_rate photo) = Inr units_B"
      and "malformed_input ts (pulse_inds_2 photo) units_B"
    using fatal [OF malformed [OF that]] by simp
  have 2: "process_pairs env (xs @ (b, Some p) # ys) st
             = Inl (if sampling_rate photo = 0 then ZeroDivisionError else MalformedInput)"
    if al: "Rsync_aligner env = Aligner fit" and rate: "sampling_rate photo \<le> 0"
  proof (cases "sampling_rate photo = 0")
    case True
    then have "instantiate_aligner env ts (pulse_inds_2 photo) (sampling_rate photo)
        = Inl ZeroDivisionError"
      by (simp add: instantiate_aligner_def true_divide_by_0)
    from fatal [OF this] True show ?thesis by simp
  next
    case False
    from true_divide_1000 [OF False] rate False obtain u where
      u: "true_divide 1000 (sampling_rate photo) = Inr u" and "negative u"
      by auto
    then have "malformed_input ts (pulse_inds_2 photo) u"
      by (simp add: malformed_input_def double_value_negative)
    from fatal [OF malformed [OF al u this]] False show ?thesis by simp
  qed
  from 1 2 fatal show ?thesis by blast
qed

theorem malformed_input_aborts_witness:
  "process_pairs demo_env
     ([(''m001-2019-01-01.txt'', Some ''m001-2019-01-01.ppd'')]
        @ (''m004-2019-01-01.txt'', Some ''m004-2019-01-01.ppd'')
        # [(''m002-2019-01-01.txt'', None)]) ([], [])
     = Inl MalformedInput
   \<and> process_pairs demo_env
     ([(''m001-2019-01-01.txt'', Some ''m001-2019-01-01.ppd'')]
        @ (''m005-2019-01-01.txt'', Some ''m005-2019-01-01.ppd'')
        # [(''m002-2019-01-01.txt'', None)]) ([], [])
     = Inl ZeroDivisionError
   \<and> process_pairs demo_env
     ([(''m001-2019-01-01.txt'', Some ''m001-2019-01-01.ppd'')]
        @ (''m006-2019-01-01.txt'', Some ''m006-2019-01-01.ppd'')
        # [(''m002-2019-01-01.txt'', None)]) ([], [])
     = Inl MalformedInput
   \<and> process_pairs demo_env
     ([(''m001-2019-01-01.txt'', Some ''m001-2019-01-01.ppd'')]
        @ (''m007-2019-01-01.txt'', Some ''m007-2019-01-01.ppd'')
        # [(''m002-2019-01-01.txt'', None)]) ([], [])
     = Inl MalformedInput"
proof -
  have xs: "process_pairs demo_env [(''m001-2019-01-01.txt'', Some ''m001-2019-01-01.ppd'')]
              ([], [])
            = Inr ([\<lparr>times_dict = [''rsync'' \<mapsto> [0, 1000, 2000]],
              photo_data = Some \<lparr>pulse_inds_2 = [0, 130, 260], sampling_rate = 130,
                aligner = Some ([0, 1000, 2000], [0, 130, 260],
                  Double False 8660768514174031 (- 50))\<rparr>\<rparr>], [])"
    by (rule demo_m001)
  have s: "Session demo_env b
             = Inr \<lparr>times_dict = [''rsync'' \<mapsto> [0, 1000, 2000]], photo_data = None\<rparr>" for b
    by (simp add: demo_env_def)
  have i4: "import_ppd demo_env ''m004-2019-01-01.ppd''
             = Inr \<lparr>pulse_inds_2 = [], sampling_rate = 130, aligner = None\<rparr>"
    by (simp add: demo_env_def)
  have i5: "import_ppd demo_env ''m005-2019-01-01.ppd''
             = Inr \<lparr>pulse_inds_2 = [0, 130, 260], sampling_rate = 0, aligner = None\<rparr>"
    by (simp add: demo_env_def)
  have i6: "import_ppd demo_env ''m006-2019-01-01.ppd''
             = Inr \<lparr>pulse_inds_2 = [0, 130, 260], sampling_rate = - 8, aligner = None\<rparr>"
    by (simp add: demo_env_def)
  have i7: "import_ppd demo_env ''m007-2019-01-01.ppd''
             = Inr \<lparr>pulse_inds_2 = [0, 260, 130], sampling_rate = 130, aligner = None\<rparr>"
    by (simp add: demo_env_def)
  have t: "times_dict \<lparr>times_dict = [''rsync'' \<mapsto> [0, 1000, 2000]],
             photo_data = (None :: (int list \<times> int list \<times> double) photo_data option)\<rparr> ''rsync''
             = Some [0, 1000, 2000]"
    by simp
  have al: "Rsync_aligner demo_env
      = Aligner (\<lambda>A B u. if length A = length B then Some (A, B, u) else None)"
    by (simp add: demo_env_def)
  have m4: "malformed_input [0, 1000, 2000] [] (Double False 8660768514174031 (- 50))"
    by (simp add: malformed_input_def)
  from malformed_input_aborts [OF xs s [of "''m004-2019-01-01.txt''"] _ i4 t,
      where fit = "\<lambda>A B u. if length A = length B then Some (A, B, u) else None"
        and units_B = "Double False 8660768514174031 (- 50)"
        and ys = "[(''m002-2019-01-01.txt'', None)]"]
    al m4
  have 4: "process_pairs demo_env
     ([(''m001-2019-01-01.txt'', Some ''m001-2019-01-01.ppd'')]
        @ (''m004-2019-01-01.txt'', Some ''m004-2019-01-01.ppd'')
        # [(''m002-2019-01-01.txt'', None)]) ([], [])
     = Inl MalformedInput"
    by (simp add: true_divide_1000_130)
  from malformed_input_aborts [OF xs s [of "''m005-2019-01-01.txt''"] _ i5 t,
      where fit = "\<lambda>A B u. if length A = length B then Some (A, B, u) else None"
        and ys = "[(''m002-2019-01-01.txt'', None)]"]
    al
  have 5: "process_pairs demo_env
     ([(''m001-2019-01-01.txt'', Some ''m001-2019-01-01.ppd'')]
        @ (''m005-2019-01-01.txt'', Some ''m005-2019-01-01.ppd'')
        # [(''m002-2019-01-01.txt'', None)]) ([], [])
     = Inl ZeroDivisionError"
    by simp
  from malformed_input_aborts [OF xs s [of "''m006-2019-01-01.txt''"] _ i6 t,
      where fit = "\<lambda>A B u. if length A = length B then Some (A, B, u) else None"
        and ys = "[(''m002-2019-01-01.txt'', None)]"]
    al
  have 6: "process_pairs demo_env
     ([(''m001-2019-01-01.txt'', Some ''m001-2019-01-01.ppd'')]
        @ (''m006-2019-01-01.txt'', Some ''m006-2019-01-01.ppd'')
        # [(''m002-2019-01-01.txt'', None)]) ([], [])
     = Inl MalformedInput"
    by simp
  have m7: "malformed_input [0, 1000, 2000] [0, 260, 130] (Double False 8660768514174031 (- 50))"
    by (simp add: malformed_input_def)
  from malformed_input_aborts [OF xs s [of "''m007-2019-01-01.txt''"] _ i7 t,
      where fit = "\<lambda>A B u. if length A = length B then Some (A, B, u) else None"
        and units_B = "Double False 8660768514174031 (- 50)"
        and ys = "[(''m002-2019-01-01.txt'', None)]"]
    al m7
  have 7: "process_pairs demo_env
     ([(''m001-2019-01-01.txt'', Some ''m001-2019-01-01.ppd'')]
        @ (''m007-2019-01-01.txt'', Some ''m007-2019-01-01.ppd'')
        # [(''m002-2019-01-01.txt'', None)]) ([], [])
     = Inl MalformedInput"
    by (simp add: true_divide_1000_130)
  from 4 5 6 7 show ?thesis by blast
qed

text \<open>
  C7: when the script has run to its end, every behaviour file name is accounted for
  exactly once: there is a list \<open>ok\<close> of names, one for each member of \<open>sessions\<close> in
  order, the session being the one loaded from that file with photometry data attached,
  such that \<open>ok\<close>, \<open>missing_sessions\<close> and the behaviour names of \<open>sync_errors\<close> hold
  together the behaviour file names, each as often as the folder listing has it. The
  summary prints the name of every missing session, both names of every sync error, and
  first the number of sessions.
\<close>

theorem every_file_accounted_for:
  assumes "import_script env bs ps = Inr r"
  shows "(\<exists>ok. list_all2 (\<lambda>b s. \<exists>s0 pd. Session env b = Inr s0 \<and> s = s0\<lparr>photo_data := Some pd\<rparr>)
                 ok (g_sessions r)
             \<and> mset ok + mset (g_missing_sessions r) + mset (map fst (g_sync_errors r))
                 = mset bs)
       \<and> (\<forall>b\<in>set (g_missing_sessions r). ''    '' @ b \<in> set (stdout r))
       \<and> (\<forall>e\<in>set (g_sync_errors r). ''    '' @ fst e @ '' : '' @ snd e \<in> set (stdout r))
       \<and> hd (stdout r) =
           CHR 0x0A # ''Matching behaviour and photometry data found for ''
             @ str_of_nat (length (g_sessions r)) @ '' sessions.''"
proof -
  from assms obtain cf ss es where
    cf: "coresponding_files bs ps = Inr cf" and
    run: "process_pairs env cf ([], []) = Inr (ss, es)" and
    r: "r = \<lparr>g_coresponding_files = cf, g_sessions = ss, g_sync_errors = es,
             g_missing_sessions = missing_sessions cf,
             stdout = summary ss (missing_sessions cf) es\<rparr>"
    by (auto simp: import_script_def split: sum.splits)
  have ne: "\<forall>e\<in>set cf. snd e \<noteq> Some []"
    using coresponding_files_nonempty_match [OF cf] by blast
  from process_pairs_accounts [OF run ne] coresponding_files_fst [OF cf]
  have 1: "\<exists>ok. list_all2 (\<lambda>b s. \<exists>s0 pd. Session env b = Inr s0 \<and> s = s0\<lparr>photo_data := Some pd\<rparr>)
                 ok (g_sessions r)
             \<and> mset ok + mset (g_missing_sessions r) + mset (map fst (g_sync_errors r))
                 = mset bs"
    by (simp add: r)
  have 2: "\<forall>b\<in>set (g_missing_sessions r). ''    '' @ b \<in> set (stdout r)"
    using summary_missing [of _ "missing_sessions cf" ss es] by (simp add: r)
  have 3: "\<forall>e\<in>set (g_sync_errors r). ''    '' @ fst e @ '' : '' @ snd e \<in> set (stdout r)"
  proof
    fix e assume "e \<in> set (g_sync_errors r)"
    then have "(fst e, snd e) \<in> set es" by (simp add: r)
    from summary_sync_error [OF this, of ss "missing_sessions cf"]
    show "''    '' @ fst e @ '' : '' @ snd e \<in> set (stdout r)" by (simp add: r)
  qed
  have 4: "hd (stdout r) =
           CHR 0x0A # ''Matching behaviour and photometry data found for ''
             @ str_of_nat (length (g_sessions r)) @ '' sessions.''"
    using summary_first [of ss "missing_sessions cf" es] by (simp add: r)
  from 1 2 3 4 show ?thesis by blast
qed

theorem every_file_accounted_for_witness:
  "\<exists>r. import_script demo_env
         [''m001-2019-01-01.txt'', ''m002-2019-01-01.txt'', ''m003-2019-01-01.txt'']
         [''m001-2019-01-01.ppd'', ''m003-2019-01-01.ppd''] = Inr r
     \<and> length (g_sessions r) = 1
     \<and> g_missing_sessions r = [''m002-2019-01-01.txt'']
     \<and> g_sync_errors r = [(''m003-2019-01-01.txt'', ''m003-2019-01-01.ppd'')]
     \<and> ''    m002-2019-01-01.txt'' \<in> set (stdout r)
     \<and> ''    m003-2019-01-01.txt : m003-2019-01-01.ppd'' \<in> set (stdout r)
     \<and> hd (stdout r)
         = CHR 0x0A # ''Matching behaviour and photometry data found for 1 sessions.''"
proof -
  have "\<exists>r. import_script demo_env
         [''m001-2019-01-01.txt'', ''m002-2019-01-01.txt'', ''m003-2019-01-01.txt'']
         [''m001-2019-01-01.ppd'', ''m003-2019-01-01.ppd''] = Inr r
     \<and> length (g_sessions r) = 1
     \<and> g_missing_sessions r = [''m002-2019-01-01.txt'']
     \<and> g_sync_errors r = [(''m003-2019-01-01.txt'', ''m003-2019-01-01.ppd'')]"
    by (simp add: import_script_def run_defs missing_sessions_def)
  then obtain r where
    run: "import_script demo_env
         [''m001-2019-01-01.txt'', ''m002-2019-01-01.txt'', ''m003-2019-01-01.txt'']
         [''m001-2019-01-01.ppd'', ''m003-2019-01-01.ppd''] = Inr r"
    and len: "length (g_sessions r) = 1"
    and ms: "g_missing_sessions r = [''m002-2019-01-01.txt'']"
    and es: "g_sync_errors r = [(''m003-2019-01-01.txt'', ''m003-2019-01-01.ppd'')]"
    by blast
  from every_file_accounted_for [OF run] len ms es
  have "''    m002-2019-01-01.txt'' \<in> set (stdout r)
     \<and> ''    m003-2019-01-01.txt : m003-2019-01-01.ppd'' \<in> set (stdout r)
     \<and> hd (stdout r)
         = CHR 0x0A # ''Matching behaviour and photometry data found for 1 sessions.''"
    by (simp add: str_of_nat.simps)
  with run len ms es show ?thesis by blast
qed

end
